theory Spec2Isabelle
  imports Complex_Main
begin

text \<open>
  The attendance records of the myAMS backend: how \<open>markAttendance\<close> validates and
  creates a record, how \<open>editAttendanceRecord\<close> and the methods of the record change
  it, how \<open>generateSessionBreakdown\<close> lays out the sessions of a class, and how
  \<open>getAttendanceBySubject\<close> sums a student's records. The handlers are functions from
  the request, the lookups they make and the collection of records to a result and the
  new collection; an error response is a value \<open>Inl\<close>.
\<close>

section \<open>Constants (config/constants.js)\<close>

definition SESSION_DURATION :: int where
  "SESSION_DURATION = 45"

definition MAX_SESSIONS_PER_CLASS :: int where
  "MAX_SESSIONS_PER_CLASS = 10"

definition PRESENT :: string where
  "PRESENT = ''present''"

definition ABSENT :: string where
  "ABSENT = ''absent''"

text \<open>\<open>Object.values(ATTENDANCE_STATUS)\<close>.\<close>

definition ATTENDANCE_STATUS_values :: "string list" where
  "ATTENDANCE_STATUS_values = [PRESENT, ABSENT]"

section \<open>Time strings\<close>

text \<open>
  Times travel as strings. The controllers test them against
  \<^verbatim>\<open>/^([0-1][0-9]|2[0-3]):([0-5][0-9])$/\<close> and read them with
  \<^verbatim>\<open>split(':').map(Number)\<close>.
\<close>

definition isDigit :: "char \<Rightarrow> bool" where
  "isDigit c = (48 \<le> (of_char c :: nat) \<and> (of_char c :: nat) \<le> 57)"

definition digitVal :: "char \<Rightarrow> nat" where
  "digitVal c = (of_char c :: nat) - 48"

definition digitChar :: "nat \<Rightarrow> char" where
  "digitChar n = char_of (48 + n)"

fun timeRegex_test :: "string \<Rightarrow> bool" where
  "timeRegex_test [a, b, c, d, e] =
     (((isDigit a \<and> digitVal a \<le> 1 \<and> isDigit b)
        \<or> (a = CHR ''2'' \<and> isDigit b \<and> digitVal b \<le> 3))
      \<and> c = CHR '':''
      \<and> isDigit d \<and> digitVal d \<le> 5 \<and> isDigit e)"
| "timeRegex_test _ = False"

text \<open>\<open>s.split(':')\<close>: the pieces between the colons, at least one piece.\<close>

fun split_colon :: "string \<Rightarrow> string list" where
  "split_colon [] = [[]]"
| "split_colon (x # xs) =
     (if x = CHR '':'' then [] # split_colon xs
      else (case split_colon xs of
              [] \<Rightarrow> [[x]]
            | y # ys \<Rightarrow> (x # y) # ys))"

text \<open>
  \<open>Number(s)\<close> on the strings that reach it here: a run of decimal digits is its value,
  the empty string is 0, and anything else is taken as \<open>NaN\<close> (\<open>None\<close>). Signs,
  exponents, hexadecimal and surrounding blanks, which \<open>Number\<close> also reads, do not
  occur in a string that passed the time pattern.
\<close>

definition Number :: "string \<Rightarrow> nat option" where
  "Number s = (if \<forall>c \<in> set s. isDigit c
               then Some (foldl (\<lambda>a c. 10 * a + digitVal c) 0 s)
               else None)"

text \<open>
  \<open>const [h, m] = s.split(':').map(Number)\<close>: the first two pieces; a missing piece
  is \<open>undefined\<close>, which the arithmetic and \<open>setHours\<close> turn into \<open>NaN\<close>.
\<close>

definition parseHourMinute :: "string \<Rightarrow> (nat \<times> nat) option" where
  "parseHourMinute s =
     (case split_colon s of
        h # m # _ \<Rightarrow>
          (case (Number h, Number m) of
             (Some hh, Some mm) \<Rightarrow> Some (hh, mm)
           | _ \<Rightarrow> None)
      | _ \<Rightarrow> None)"

text \<open>\<open>hour * 60 + minute\<close>, as \<open>markAttendance\<close> computes it for both ends.\<close>

definition toMinutes :: "string \<Rightarrow> int option" where
  "toMinutes s = (case parseHourMinute s of
                    Some (h, m) \<Rightarrow> Some (int h * 60 + int m)
                  | None \<Rightarrow> None)"

text \<open>\<open>String(n)\<close> for a natural number.\<close>

fun showNat :: "nat \<Rightarrow> string" where
  "showNat n = (if n < 10 then [digitChar n]
                else showNat (n div 10) @ [digitChar (n mod 10)])"

declare showNat.simps [simp del]

definition padStart2 :: "string \<Rightarrow> string" where
  "padStart2 s = replicate (2 - length s) (CHR ''0'') @ s"

section \<open>Dates\<close>

text \<open>
  A \<open>Date\<close> holds a time value, the milliseconds since the epoch in UTC, or \<open>NaN\<close> (an
  invalid date). \<open>getHours\<close>, \<open>getMinutes\<close>, \<open>setHours\<close> and \<open>setMinutes\<close> work in
  the local time of the process, as ECMAScript defines them with \<open>LocalTime\<close>, \<open>UTC\<close>,
  \<open>Day\<close>, \<open>MakeTime\<close>, \<open>MakeDate\<close> and \<open>TimeClip\<close>. The time zone is
  \<open>LocalTZA(t, isUTC)\<close>, its offset in milliseconds at the UTC time \<open>t\<close> when \<open>isUTC\<close>
  holds and at the local time \<open>t\<close> otherwise, where a local time that a clock change
  skips or repeats is read with the offset before the change.
\<close>

type_synonym timeZone = "int \<Rightarrow> bool \<Rightarrow> int"

definition msPerDay :: int where
  "msPerDay = 86400000"

definition msPerHour :: int where
  "msPerHour = 3600000"

definition msPerMinute :: int where
  "msPerMinute = 60000"

definition msPerSecond :: int where
  "msPerSecond = 1000"

definition LocalTime :: "timeZone \<Rightarrow> int \<Rightarrow> int" where
  "LocalTime tz t = t + tz t True"

definition UTC :: "timeZone \<Rightarrow> int \<Rightarrow> int" where
  "UTC tz t = t - tz t False"

definition Day :: "int \<Rightarrow> int" where
  "Day t = t div msPerDay"

definition HourFromTime :: "int \<Rightarrow> int" where
  "HourFromTime t = (t div msPerHour) mod 24"

definition MinFromTime :: "int \<Rightarrow> int" where
  "MinFromTime t = (t div msPerMinute) mod 60"

definition SecFromTime :: "int \<Rightarrow> int" where
  "SecFromTime t = (t div msPerSecond) mod 60"

definition msFromTime :: "int \<Rightarrow> int" where
  "msFromTime t = t mod msPerSecond"

definition MakeTime :: "int \<Rightarrow> int \<Rightarrow> int \<Rightarrow> int \<Rightarrow> int" where
  "MakeTime hour minute sec ms = hour * msPerHour + minute * msPerMinute + sec * msPerSecond + ms"

definition MakeDate :: "int \<Rightarrow> int \<Rightarrow> int" where
  "MakeDate day time = day * msPerDay + time"

datatype jsdate = InvalidDate | TimeValue int

definition TimeClip :: "int \<Rightarrow> jsdate" where
  "TimeClip t = (if \<bar>t\<bar> > 8640000000000000 then InvalidDate else TimeValue t)"

text \<open>\<open>getHours()\<close> and \<open>getMinutes()\<close>; \<open>None\<close> is \<open>NaN\<close>.\<close>

fun getHours :: "timeZone \<Rightarrow> jsdate \<Rightarrow> nat option" where
  "getHours tz InvalidDate = None"
| "getHours tz (TimeValue t) = Some (nat (HourFromTime (LocalTime tz t)))"

fun getMinutes :: "timeZone \<Rightarrow> jsdate \<Rightarrow> nat option" where
  "getMinutes tz InvalidDate = None"
| "getMinutes tz (TimeValue t) = Some (nat (MinFromTime (LocalTime tz t)))"

text \<open>
  \<open>setHours(hour, min, 0, 0)\<close>: the local day of the date with the time of day given;
  the two numbers are \<open>None\<close> when one of them is \<open>NaN\<close>.
\<close>

definition setHours :: "timeZone \<Rightarrow> jsdate \<Rightarrow> (nat \<times> nat) option \<Rightarrow> jsdate" where
  "setHours tz d hm =
     (case (d, hm) of
        (TimeValue t, Some (h, m)) \<Rightarrow>
          TimeClip (UTC tz (MakeDate (Day (LocalTime tz t)) (MakeTime (int h) (int m) 0 0)))
      | _ \<Rightarrow> InvalidDate)"

text \<open>\<open>setMinutes(min)\<close>: the local day, hour, second and millisecond of the date are kept.\<close>

definition setMinutes :: "timeZone \<Rightarrow> jsdate \<Rightarrow> int option \<Rightarrow> jsdate" where
  "setMinutes tz d minute =
     (case (d, minute) of
        (TimeValue t, Some m) \<Rightarrow>
          (let l = LocalTime tz t
           in TimeClip (UTC tz (MakeDate (Day l)
                (MakeTime (HourFromTime l) m (SecFromTime l) (msFromTime l)))))
      | _ \<Rightarrow> InvalidDate)"

section \<open>The session breakdown (teacherController.js, generateSessionBreakdown)\<close>

text \<open>\<open>String(x).padStart(2, '0')\<close>, with \<open>String(NaN) = "NaN"\<close>.\<close>

definition pad2 :: "nat option \<Rightarrow> string" where
  "pad2 x = (case x of None \<Rightarrow> ''NaN'' | Some n \<Rightarrow> padStart2 (showNat n))"

text \<open>The template that prints the hours and minutes of \<open>currentTime\<close>.\<close>

definition formatHHMM :: "timeZone \<Rightarrow> jsdate \<Rightarrow> string" where
  "formatHHMM tz d = pad2 (getHours tz d) @ '':'' @ pad2 (getMinutes tz d)"

record sessionSlot =
  slotNumber :: int
  slotStart :: string
  slotEnd :: string

text \<open>
  The loop \<open>for (let i = 1; i <= numSessions; i++)\<close>, with the running \<open>Date\<close> as
  argument. \<open>slotNumber\<close>, \<open>slotStart\<close> and \<open>slotEnd\<close> are the fields
  \<open>sessionNumber\<close>, \<open>startTime\<close> and \<open>endTime\<close> of a breakdown element.
\<close>

function breakdownLoop :: "timeZone \<Rightarrow> int \<Rightarrow> int \<Rightarrow> jsdate \<Rightarrow> sessionSlot list" where
  "breakdownLoop tz i numSessions currentTime =
     (if i \<le> numSessions
      then (let sessionStart = formatHHMM tz currentTime;
                currentTime' = setMinutes tz currentTime
                                 (map_option (\<lambda>m. int m + SESSION_DURATION)
                                    (getMinutes tz currentTime));
                sessionEnd = formatHHMM tz currentTime'
            in \<lparr>slotNumber = i, slotStart = sessionStart, slotEnd = sessionEnd\<rparr>
               # breakdownLoop tz (i + 1) numSessions currentTime')
      else [])"
  by pat_completeness auto
termination
  by (relation "measure (\<lambda>(tz, i, n, t). nat (n + 1 - i))") auto

declare breakdownLoop.simps [simp del]

text \<open>
  The function reads the clock (\<open>new Date()\<close>, the time value \<open>now\<close>) and the time zone
  of the process besides its arguments; it does not read \<open>endTime\<close>.
\<close>

definition generateSessionBreakdown ::
    "timeZone \<Rightarrow> int \<Rightarrow> string \<Rightarrow> string \<Rightarrow> int \<Rightarrow> sessionSlot list" where
  "generateSessionBreakdown tz now startTime endTime numSessions =
     breakdownLoop tz 1 numSessions (setHours tz (TimeValue now) (parseHourMinute startTime))"

section \<open>Slots on the clock\<close>

text \<open>
  What the breakdown is meant to hold, to compare the function with: \<open>wallClock t\<close>
  is the clock reading \<open>HH:MM\<close> at \<open>t\<close> minutes after some midnight, and \<open>slotAt i t j\<close>
  is slot \<open>j\<close> of a run of 45-minute slots of which slot \<open>i\<close> starts at minute \<open>t\<close>.
\<close>

definition wallClock :: "int \<Rightarrow> string" where
  "wallClock t = padStart2 (showNat (nat ((t div 60) mod 24))) @ '':''
                 @ padStart2 (showNat (nat (t mod 60)))"

definition slotAt :: "int \<Rightarrow> int \<Rightarrow> int \<Rightarrow> sessionSlot" where
  "slotAt i t j = \<lparr>slotNumber = j,
      slotStart = wallClock (t + SESSION_DURATION * (j - i)),
      slotEnd = wallClock (t + SESSION_DURATION * (j - i) + SESSION_DURATION)\<rparr>"

text \<open>
  The local time on the day of \<open>now\<close> at which slot \<open>k + 1\<close> of a class starting at minute
  \<open>t\<close> begins (and slot \<open>k\<close> ends), and the condition that the process can hold each
  of these times for \<open>n\<close> slots: the local time exists, so that it is read back as it
  was set, and its time value is in the range of a \<open>Date\<close>.
\<close>

definition boundary :: "timeZone \<Rightarrow> int \<Rightarrow> int \<Rightarrow> int \<Rightarrow> int" where
  "boundary tz now t k =
     MakeDate (Day (LocalTime tz now)) ((t + SESSION_DURATION * k) * msPerMinute)"

definition boundariesExist :: "timeZone \<Rightarrow> int \<Rightarrow> int \<Rightarrow> int \<Rightarrow> bool" where
  "boundariesExist tz now t n =
     list_all (\<lambda>k. LocalTime tz (UTC tz (boundary tz now t k)) = boundary tz now t k
                  \<and> \<bar>UTC tz (boundary tz now t k)\<bar> \<le> 8640000000000000) [0..n]"

section \<open>Numbers\<close>

text \<open>
  A JavaScript number is an IEEE 754 double. A finite double is kept by its exact
  rational value; \<open>fl\<close> rounds a rational to the nearest double (53 significant bits,
  ties to the even significand), which is what each arithmetic operation returns for
  its exact result. The values that occur here, quotients of two counts and
  percentages, are far from overflow and from the subnormal range, which \<open>fl\<close> leaves
  out.
\<close>

text \<open>The number of binary digits of a positive integer.\<close>

function bitlen :: "int \<Rightarrow> int" where
  "bitlen n = (if n \<le> 0 then 0 else 1 + bitlen (n div 2))"
  by pat_completeness auto
termination
  by (relation "measure nat") auto

declare bitlen.simps [simp del]

text \<open>For \<open>x > 0\<close>: the exponent \<open>e\<close> with \<open>2 powi e \<le> x < 2 powi (e + 1)\<close>.\<close>

definition ilog2 :: "rat \<Rightarrow> int" where
  "ilog2 x = (case quotient_of x of (a, b) \<Rightarrow>
                (let d = bitlen a - bitlen b
                 in if 2 powi d \<le> x then d else d - 1))"

definition roundHalfEven :: "rat \<Rightarrow> int" where
  "roundHalfEven x =
     (let f = \<lfloor>x\<rfloor>; r = x - of_int f
      in if r < 1 / 2 then f
         else if 1 / 2 < r then f + 1
         else if even f then f else f + 1)"

definition fl :: "rat \<Rightarrow> rat" where
  "fl x = (if x = 0 then 0
           else (let e = ilog2 \<bar>x\<bar> - 52;
                     m = roundHalfEven (\<bar>x\<bar> / (2 powi e))
                 in sgn x * of_int m * (2 powi e)))"

datatype jsnumber = Num rat | NaN | Infinity

text \<open>
  \<open>x.toFixed(2)\<close> prints the integer \<open>n\<close> for which \<open>n / 100\<close> is nearest to the exact
  value of \<open>x\<close>, the larger one of two, with the sign of \<open>x\<close> in front; \<open>toFixed2\<close> is
  that \<open>n\<close>, signed. \<open>parseFloat\<close> reads the printed decimal back as the nearest double.
\<close>

definition toFixed2 :: "rat \<Rightarrow> int" where
  "toFixed2 x = (if x < 0 then - \<lfloor>- x * 100 + 1 / 2\<rfloor> else \<lfloor>x * 100 + 1 / 2\<rfloor>)"

definition parseFloat2 :: "int \<Rightarrow> rat" where
  "parseFloat2 n = fl (of_int n / 100)"

text \<open>
  \<open>parseFloat(((presentCount / numSessions) * 100).toFixed(2))\<close>. Division by zero
  gives \<open>NaN\<close> for \<open>0 / 0\<close> and \<open>Infinity\<close> otherwise, and both survive the rest.
\<close>

definition jsPercentage :: "nat \<Rightarrow> int \<Rightarrow> jsnumber" where
  "jsPercentage presentCount numSessions =
     (if numSessions = 0 then (if presentCount = 0 then NaN else Infinity)
      else Num (parseFloat2 (toFixed2 (fl (fl (of_nat presentCount / of_int numSessions) * 100)))))"

text \<open>
  Rounding the exact value to two decimals, a tie upwards; \<open>roundTo2\<close> is the decimal
  and \<open>parseFloat2 \<circ> toFixed2\<close> of an exact value the double that stands for it.
\<close>

definition roundTo2 :: "rat \<Rightarrow> rat" where
  "roundTo2 x = of_int (toFixed2 x) / 100"

section \<open>Documents\<close>

type_synonym objectId = string

text \<open>Instants are milliseconds since the epoch; calendar days are day numbers.\<close>

type_synonym instant = nat
type_synonym day = int

record sessionMark =
  sessionNumber :: int
  status :: string

text \<open>An element of \<open>attendance\<close> in an AttendanceRecord (AttendanceRecord.model.js).\<close>

record studentAttendance =
  studentId :: objectId
  sessions :: "sessionMark list"
  totalPresent :: nat
  totalAbsent :: nat
  attendancePercentage :: jsnumber

record attendanceRecord =
  recordId :: string
  subjectId :: objectId
  teacherId :: objectId
  classSectionId :: objectId
  date :: day
  startTime :: string
  endTime :: string
  semester :: nat
  numSessions :: int
  sessionBreakdown :: "sessionSlot list"
  attendance :: "studentAttendance list"
  markedBy :: objectId
  markedAt :: instant
  lastModifiedBy :: "objectId option"
  lastModifiedAt :: "instant option"
  isFinalized :: bool

text \<open>Teacher, Subject, Student and ClassSection, with the fields the handlers read.\<close>

record teacher =
  teacher_id :: objectId
  teacher_userId :: objectId

record subject =
  subject_id :: objectId
  subjectCode :: string

record student =
  student_id :: objectId
  student_userId :: objectId
  enrolledSubjects :: "objectId list"

record rosterEntry =
  roster_studentId :: objectId
  roster_status :: string
  withdrawnAt :: "instant option"

text \<open>\<open>cs_subject\<close> is \<open>subjectId\<close> after \<open>populate('subjectId')\<close>.\<close>

record classSection =
  cs_id :: objectId
  cs_subject :: subject
  cs_teacherId :: objectId
  cs_semester :: nat
  cs_sectionName :: string
  students :: "rosterEntry list"
  isActive :: bool

text \<open>
  What a handler reads besides the AttendanceRecord collection: the lookups of the
  other collections, the clock, the time zone of the process, and \<open>parseDate\<close> and
  \<open>formatDate\<close> of utils/dateUtils.js, which are taken as given (\<open>parseDate\<close>
  throws on a string that is not a date: \<open>None\<close>). A call that reads the clock more
  than once is given the same reading \<open>now\<close> each time.
\<close>

record env =
  findTeacherByUserId :: "objectId \<Rightarrow> teacher option"
  findStudentByUserId :: "objectId \<Rightarrow> student option"
  findStudentById :: "objectId \<Rightarrow> student option"
  findSubjectById :: "objectId \<Rightarrow> subject option"
  findClassSectionById :: "objectId \<Rightarrow> classSection option"
  parseDate :: "string \<Rightarrow> day option"
  formatDate :: "day \<Rightarrow> string"
  today :: day
  now :: instant
  localTZA :: timeZone

section \<open>Errors\<close>

text \<open>Errors thrown by the methods of AttendanceRecord.model.js.\<close>

datatype modelError =
    InvalidAttendanceObject
  | StudentNotInRecord objectId
  | SessionsDataEmpty
  | SessionUpdateMalformed
  | InvalidStatus string
  | SessionNotFound int
  | AttendanceInconsistent objectId nat int

text \<open>One constructor for each \<open>sendError\<close> of the handlers, in the order of the source.\<close>

datatype error =
    MissingRequiredFields
  | NumSessionsOutOfRange
  | StartTimeFormat
  | EndTimeFormat
  | EndTimeNotAfterStartTime
  | DurationTooShort int int
  | AttendanceNotNonEmptyArray
  | TeacherProfileNotFound
  | ClassSectionNotFound
  | ClassSectionDeleted
  | TeacherNotAssigned
  | DateInvalidFormat
  | DateInFuture
  | StudentNotFound objectId
  | StudentNotEnrolled objectId
  | StudentNotInSection objectId
  | SessionsWrongCount objectId
  | SessionNumberInvalid objectId int
  | SessionStatusInvalid objectId string
  | SessionNumbersDuplicate objectId
  | SessionNumbersMissing objectId "int list"
  | DuplicateKey string
  | AttendanceRecordNotFound
  | NotRecordOwner
  | RecordFinalized
  | UpdateAttendanceFailed modelError
  | StudentProfileNotFound
  | NotEnrolledInSubject
  | SubjectNotFound
  | StartDateInvalidFormat
  | EndDateInvalidFormat

definition BAD_REQUEST :: nat where "BAD_REQUEST = 400"
definition FORBIDDEN :: nat where "FORBIDDEN = 403"
definition NOT_FOUND :: nat where "NOT_FOUND = 404"
definition CONFLICT :: nat where "CONFLICT = 409"

text \<open>
  The HTTP status each error is sent with. A duplicate key is thrown by the store and
  answered by \<open>errorHandler\<close> (code 11000) with 409.
\<close>

fun httpStatus :: "error \<Rightarrow> nat" where
  "httpStatus TeacherProfileNotFound = NOT_FOUND"
| "httpStatus ClassSectionNotFound = NOT_FOUND"
| "httpStatus AttendanceRecordNotFound = NOT_FOUND"
| "httpStatus StudentProfileNotFound = NOT_FOUND"
| "httpStatus SubjectNotFound = NOT_FOUND"
| "httpStatus TeacherNotAssigned = FORBIDDEN"
| "httpStatus NotRecordOwner = FORBIDDEN"
| "httpStatus NotEnrolledInSubject = FORBIDDEN"
| "httpStatus (DuplicateKey k) = CONFLICT"
| "httpStatus _ = BAD_REQUEST"

section \<open>Validating one student's sessions (teacherController.js, markAttendance)\<close>

text \<open>
  The request body is taken with the types its documentation gives: strings, a number
  of sessions, and for each student an id and an array of \<open>{sessionNumber, status}\<close>.
  A field that is absent is \<open>None\<close>.
\<close>

record attendanceInput =
  in_studentId :: objectId
  in_sessions :: "sessionMark list"

record markRequest =
  req_classSectionId :: "objectId option"
  req_date :: "string option"
  req_startTime :: "string option"
  req_endTime :: "string option"
  req_numSessions :: "int option"
  req_attendance :: "attendanceInput list option"

text \<open>
  The inner loop over \<open>sessions\<close>: the first session number outside \<open>1..numSessions\<close>
  or status outside \<open>ATTENDANCE_STATUS\<close> ends the request; otherwise the session is
  counted as present or absent.
\<close>

fun countSessions :: "objectId \<Rightarrow> int \<Rightarrow> sessionMark list \<Rightarrow> nat \<Rightarrow> nat \<Rightarrow> error + nat \<times> nat" where
  "countSessions sid n [] presentCount absentCount = Inr (presentCount, absentCount)"
| "countSessions sid n (s # ss) presentCount absentCount =
     (if sessionNumber s < 1 \<or> sessionNumber s > n
      then Inl (SessionNumberInvalid sid (sessionNumber s))
      else if status s \<notin> set ATTENDANCE_STATUS_values
      then Inl (SessionStatusInvalid sid (status s))
      else if status s = PRESENT
      then countSessions sid n ss (presentCount + 1) absentCount
      else countSessions sid n ss presentCount (absentCount + 1))"

text \<open>
  The checks on one \<open>sessions\<close> array, in the order of the source: its length, the
  loop above, duplicates (\<open>new Set(sessionNumbers).size\<close>), and the numbers of
  \<open>1..numSessions\<close> that are missing.
\<close>

definition validateSessions :: "objectId \<Rightarrow> int \<Rightarrow> sessionMark list \<Rightarrow> error + nat \<times> nat" where
  "validateSessions sid n ss =
     (if int (length ss) \<noteq> n then Inl (SessionsWrongCount sid)
      else (case countSessions sid n ss 0 0 of
              Inl e \<Rightarrow> Inl e
            | Inr (presentCount, absentCount) \<Rightarrow>
                (let sessionNumbers = map sessionNumber ss
                 in if length sessionNumbers \<noteq> length (remdups sessionNumbers)
                    then Inl (SessionNumbersDuplicate sid)
                    else (let missingSessions = filter (\<lambda>num. num \<notin> set sessionNumbers) [1..n]
                          in if missingSessions \<noteq> []
                             then Inl (SessionNumbersMissing sid missingSessions)
                             else Inr (presentCount, absentCount)))))"

text \<open>The body of the loop over \<open>attendance\<close>: one student's entry.\<close>

definition validateStudentAttendance ::
    "env \<Rightarrow> classSection \<Rightarrow> int \<Rightarrow> attendanceInput \<Rightarrow> error + studentAttendance" where
  "validateStudentAttendance db cs n x =
     (case findStudentById db (in_studentId x) of
        None \<Rightarrow> Inl (StudentNotFound (in_studentId x))
      | Some st \<Rightarrow>
          if \<not> list_ex (\<lambda>enrollment. enrollment = subject_id (cs_subject cs)) (enrolledSubjects st)
          then Inl (StudentNotEnrolled (in_studentId x))
          else if \<not> list_ex (\<lambda>sid. roster_studentId sid = in_studentId x) (students cs)
          then Inl (StudentNotInSection (in_studentId x))
          else (case validateSessions (in_studentId x) n (in_sessions x) of
                  Inl e \<Rightarrow> Inl e
                | Inr (presentCount, absentCount) \<Rightarrow>
                    Inr \<lparr>studentId = in_studentId x,
                         sessions = in_sessions x,
                         totalPresent = presentCount,
                         totalAbsent = absentCount,
                         attendancePercentage = jsPercentage presentCount n\<rparr>))"

text \<open>The loop itself: the first entry that fails ends the request.\<close>

fun validateAttendance ::
    "env \<Rightarrow> classSection \<Rightarrow> int \<Rightarrow> attendanceInput list \<Rightarrow> error + studentAttendance list" where
  "validateAttendance db cs n [] = Inr []"
| "validateAttendance db cs n (x # xs) =
     (case validateStudentAttendance db cs n x of
        Inl e \<Rightarrow> Inl e
      | Inr v \<Rightarrow> (case validateAttendance db cs n xs of
                    Inl e \<Rightarrow> Inl e
                  | Inr vs \<Rightarrow> Inr (v # vs)))"

section \<open>Marking attendance (teacherController.js, markAttendance)\<close>

text \<open>
  \<open>String.prototype.trim\<close> strips white space and line terminators from both ends. A
  string is a list of characters with codes below 256; of these, tab, line feed,
  vertical tab, form feed, carriage return, space and the no-break space (160) are
  stripped.
\<close>

definition isSpace :: "char \<Rightarrow> bool" where
  "isSpace c = ((of_char c :: nat) \<in> {9, 10, 11, 12, 13, 32, 160})"

definition trim :: "string \<Rightarrow> string" where
  "trim s = rev (dropWhile isSpace (rev (dropWhile isSpace s)))"

text \<open>A string that is absent or empty is falsy.\<close>

fun truthy :: "string option \<Rightarrow> string option" where
  "truthy None = None"
| "truthy (Some s) = (if s = [] then None else Some s)"

record validRequest =
  vr_classSectionId :: objectId
  vr_date :: string
  vr_startTime :: string
  vr_endTime :: string
  vr_numSessions :: int
  vr_attendance :: "attendanceInput list"

text \<open>
  The checks on the body alone, before any lookup. A comparison with \<open>NaN\<close> is false,
  so a time that did not parse would pass the two comparisons; after the pattern test
  both times parse.
\<close>

definition validateRequest :: "markRequest \<Rightarrow> error + validRequest" where
  "validateRequest req =
     (case (truthy (req_classSectionId req), truthy (req_date req),
            truthy (map_option trim (req_startTime req)),
            truthy (map_option trim (req_endTime req)),
            req_numSessions req, req_attendance req) of
        (Some csid, Some d, Some st, Some en, Some n, Some att) \<Rightarrow>
          if n = 0 then Inl MissingRequiredFields
          else if n < 1 \<or> n > MAX_SESSIONS_PER_CLASS then Inl NumSessionsOutOfRange
          else if \<not> timeRegex_test st then Inl StartTimeFormat
          else if \<not> timeRegex_test en then Inl EndTimeFormat
          else (case (toMinutes st, toMinutes en) of
                  (Some startMinutes, Some endMinutes) \<Rightarrow>
                    if endMinutes \<le> startMinutes then Inl EndTimeNotAfterStartTime
                    else if endMinutes - startMinutes < n * SESSION_DURATION
                    then Inl (DurationTooShort (endMinutes - startMinutes) (n * SESSION_DURATION))
                    else if att = [] then Inl AttendanceNotNonEmptyArray
                    else Inr \<lparr>vr_classSectionId = csid, vr_date = d, vr_startTime = st,
                              vr_endTime = en, vr_numSessions = n, vr_attendance = att\<rparr>
                | _ \<Rightarrow>
                    if att = [] then Inl AttendanceNotNonEmptyArray
                    else Inr \<lparr>vr_classSectionId = csid, vr_date = d, vr_startTime = st,
                              vr_endTime = en, vr_numSessions = n, vr_attendance = att\<rparr>)
      | _ \<Rightarrow> Inl MissingRequiredFields)"

text \<open>The teacher, the class section and the date of the class.\<close>

definition resolveClass :: "env \<Rightarrow> objectId \<Rightarrow> validRequest \<Rightarrow> error + teacher \<times> classSection \<times> day" where
  "resolveClass db userId v =
     (case findTeacherByUserId db userId of
        None \<Rightarrow> Inl TeacherProfileNotFound
      | Some t \<Rightarrow>
          (case findClassSectionById db (vr_classSectionId v) of
             None \<Rightarrow> Inl ClassSectionNotFound
           | Some cs \<Rightarrow>
               if \<not> isActive cs then Inl ClassSectionDeleted
               else if cs_teacherId cs \<noteq> teacher_id t then Inl TeacherNotAssigned
               else (case parseDate db (vr_date v) of
                       None \<Rightarrow> Inl DateInvalidFormat
                     | Some attendanceDate \<Rightarrow>
                         if attendanceDate > today db then Inl DateInFuture
                         else Inr (t, cs, attendanceDate))))"

definition toUpperCase :: "string \<Rightarrow> string" where
  "toUpperCase s = map (\<lambda>c. if 97 \<le> (of_char c :: nat) \<and> (of_char c :: nat) \<le> 122
                             then char_of ((of_char c :: nat) - 32) else c) s"

text \<open>
  \<open>ATT_<date without dashes>_<subject code>_SEM<semester>_SEC<section>_<last three
  digits of Date.now()>\<close>; the schema stores it trimmed and in upper case.
\<close>

definition makeRecordId :: "env \<Rightarrow> classSection \<Rightarrow> day \<Rightarrow> string" where
  "makeRecordId db cs attendanceDate =
     (let stamp = showNat (now db)
      in toUpperCase (trim
           (''ATT_'' @ filter (\<lambda>c. c \<noteq> CHR ''-'') (formatDate db attendanceDate)
            @ ''_'' @ subjectCode (cs_subject cs)
            @ ''_SEM'' @ showNat (cs_semester cs)
            @ ''_SEC'' @ cs_sectionName cs
            @ ''_'' @ drop (length stamp - 3) stamp)))"

text \<open>
  \<open>AttendanceRecord.create\<close>: the collection is the list of its documents, and the
  unique index on \<open>recordId\<close> refuses a second document with the same id. The values
  the handlers store pass the validators of the schema, which are not modelled.
\<close>

definition createRecord :: "attendanceRecord list \<Rightarrow> attendanceRecord \<Rightarrow> error + attendanceRecord list" where
  "createRecord store r =
     (if list_ex (\<lambda>x. recordId x = recordId r) store then Inl (DuplicateKey (recordId r))
      else Inr (store @ [r]))"

definition markAttendance ::
    "env \<Rightarrow> objectId \<Rightarrow> markRequest \<Rightarrow> attendanceRecord list
      \<Rightarrow> (error + attendanceRecord) \<times> attendanceRecord list" where
  "markAttendance db userId req store =
     (case validateRequest req of
        Inl e \<Rightarrow> (Inl e, store)
      | Inr v \<Rightarrow>
          (case resolveClass db userId v of
             Inl e \<Rightarrow> (Inl e, store)
           | Inr (t, cs, attendanceDate) \<Rightarrow>
               (case validateAttendance db cs (vr_numSessions v) (vr_attendance v) of
                  Inl e \<Rightarrow> (Inl e, store)
                | Inr validatedAttendance \<Rightarrow>
                    (let r = \<lparr>recordId = makeRecordId db cs attendanceDate,
                               subjectId = subject_id (cs_subject cs),
                               teacherId = teacher_id t,
                               classSectionId = vr_classSectionId v,
                               date = attendanceDate,
                               startTime = vr_startTime v,
                               endTime = vr_endTime v,
                               semester = cs_semester cs,
                               numSessions = vr_numSessions v,
                               sessionBreakdown =
                                 generateSessionBreakdown (localTZA db) (int (now db))
                                   (vr_startTime v) (vr_endTime v) (vr_numSessions v),
                               attendance = validatedAttendance,
                               markedBy = teacher_id t,
                               markedAt = now db,
                               lastModifiedBy = None,
                               lastModifiedAt = None,
                               isFinalized = False\<rparr>
                     in (case createRecord store r of
                           Inl e \<Rightarrow> (Inl e, store)
                         | Inr store' \<Rightarrow> (Inr r, store'))))))"

section \<open>Methods of an attendance record (AttendanceRecord.model.js)\<close>

text \<open>
  \<open>xs.find(p)\<close> is \<open>find p xs\<close>; an assignment to a field of the element found
  changes the first element that satisfies \<open>p\<close>.
\<close>

fun updateFirst :: "('a \<Rightarrow> bool) \<Rightarrow> ('a \<Rightarrow> 'a) \<Rightarrow> 'a list \<Rightarrow> 'a list" where
  "updateFirst p f [] = []"
| "updateFirst p f (x # xs) = (if p x then f x # xs else x # updateFirst p f xs)"

definition countStatus :: "string \<Rightarrow> sessionMark list \<Rightarrow> nat" where
  "countStatus st ss = length (filter (\<lambda>s. status s = st) ss)"

text \<open>
  An assignment to a \<open>Number\<close> path of a document casts the value, and the cast refuses
  \<open>NaN\<close>: the path then keeps the value it had. \<open>calculateStudentTotals\<close> computes
  \<open>NaN\<close> only for a record with no sessions, which the schema does not store; what
  \<open>save()\<close> makes of the failed cast is left out.
\<close>

definition castNumber :: "jsnumber \<Rightarrow> jsnumber \<Rightarrow> jsnumber" where
  "castNumber old new = (case new of NaN \<Rightarrow> old | _ \<Rightarrow> new)"

definition calculateStudentTotals :: "attendanceRecord \<Rightarrow> objectId \<Rightarrow> modelError + attendanceRecord" where
  "calculateStudentTotals r sid =
     (case find (\<lambda>att. studentId att = sid) (attendance r) of
        None \<Rightarrow> Inr r
      | Some studentAtt \<Rightarrow>
          (let presentCount = countStatus PRESENT (sessions studentAtt);
               absentCount = countStatus ABSENT (sessions studentAtt);
               markedSessions = presentCount + absentCount
           in if int markedSessions \<noteq> numSessions r
              then Inl (AttendanceInconsistent sid markedSessions (numSessions r))
              else Inr (r\<lparr>attendance :=
                          updateFirst (\<lambda>att. studentId att = sid)
                            (\<lambda>att. att\<lparr>totalPresent := presentCount,
                                        totalAbsent := absentCount,
                                        attendancePercentage :=
                                          castNumber (attendancePercentage att)
                                            (jsPercentage presentCount (numSessions r))\<rparr>)
                            (attendance r)\<rparr>)))"

text \<open>\<open>recalculateAllTotals\<close> warns about an inconsistent entry and goes on.\<close>

definition recalculateAllTotals :: "attendanceRecord \<Rightarrow> attendanceRecord" where
  "recalculateAllTotals r =
     r\<lparr>attendance :=
         map (\<lambda>att. let presentCount = countStatus PRESENT (sessions att);
                         absentCount = countStatus ABSENT (sessions att)
                     in att\<lparr>totalPresent := presentCount,
                            totalAbsent := absentCount,
                            attendancePercentage :=
                              (if numSessions r > 0 then jsPercentage presentCount (numSessions r)
                               else Num 0)\<rparr>)
           (attendance r)\<rparr>"

definition updateWithAudit :: "attendanceRecord \<Rightarrow> objectId \<Rightarrow> instant \<Rightarrow> attendanceRecord" where
  "updateWithAudit r userId t = r\<lparr>lastModifiedBy := Some userId, lastModifiedAt := Some t\<rparr>"

definition setSessionStatus :: "int \<Rightarrow> string \<Rightarrow> sessionMark list \<Rightarrow> sessionMark list" where
  "setSessionStatus num st ss =
     updateFirst (\<lambda>s. sessionNumber s = num) (\<lambda>s. s\<lparr>status := st\<rparr>) ss"

definition setStudentSessions :: "objectId \<Rightarrow> sessionMark list \<Rightarrow> attendanceRecord \<Rightarrow> attendanceRecord" where
  "setStudentSessions sid ss r =
     r\<lparr>attendance := updateFirst (\<lambda>att. studentId att = sid) (\<lambda>att. att\<lparr>sessions := ss\<rparr>)
                        (attendance r)\<rparr>"

definition updateStudentSession ::
    "attendanceRecord \<Rightarrow> objectId \<Rightarrow> int \<Rightarrow> string \<Rightarrow> objectId \<Rightarrow> instant
      \<Rightarrow> modelError + attendanceRecord" where
  "updateStudentSession r sid num newStatus modifiedBy t =
     (if newStatus \<notin> set ATTENDANCE_STATUS_values then Inl (InvalidStatus newStatus)
      else (case find (\<lambda>att. studentId att = sid) (attendance r) of
              None \<Rightarrow> Inl (StudentNotInRecord sid)
            | Some studentAtt \<Rightarrow>
                (case find (\<lambda>s. sessionNumber s = num) (sessions studentAtt) of
                   None \<Rightarrow> Inl (SessionNotFound num)
                 | Some session \<Rightarrow>
                     (case calculateStudentTotals
                             (setStudentSessions sid
                                (setSessionStatus num newStatus (sessions studentAtt)) r) sid of
                        Inl e \<Rightarrow> Inl e
                      | Inr r' \<Rightarrow> Inr (updateWithAudit r' modifiedBy t)))))"

text \<open>
  The \<open>forEach\<close> of \<open>updateStudentAllSessions\<close> over the session updates: a session
  number 0 or an empty status is a missing field; a session number the student has
  not is only warned about.
\<close>

fun applySessionUpdates :: "sessionMark list \<Rightarrow> sessionMark list \<Rightarrow> modelError + sessionMark list" where
  "applySessionUpdates ss [] = Inr ss"
| "applySessionUpdates ss (u # us) =
     (if sessionNumber u = 0 \<or> status u = [] then Inl SessionUpdateMalformed
      else if status u \<notin> set ATTENDANCE_STATUS_values then Inl (InvalidStatus (status u))
      else applySessionUpdates (setSessionStatus (sessionNumber u) (status u) ss) us)"

definition updateStudentAllSessions ::
    "attendanceRecord \<Rightarrow> objectId \<Rightarrow> sessionMark list \<Rightarrow> objectId \<Rightarrow> instant
      \<Rightarrow> modelError + attendanceRecord" where
  "updateStudentAllSessions r sid sessionsData modifiedBy t =
     (case find (\<lambda>att. studentId att = sid) (attendance r) of
        None \<Rightarrow> Inl (StudentNotInRecord sid)
      | Some studentAtt \<Rightarrow>
          if sessionsData = [] then Inl SessionsDataEmpty
          else (case applySessionUpdates (sessions studentAtt) sessionsData of
                  Inl e \<Rightarrow> Inl e
                | Inr ss \<Rightarrow>
                    (case calculateStudentTotals (setStudentSessions sid ss r) sid of
                       Inl e \<Rightarrow> Inl e
                     | Inr r' \<Rightarrow> Inr (updateWithAudit r' modifiedBy t))))"

fun updateAttendance ::
    "attendanceRecord \<Rightarrow> attendanceInput list \<Rightarrow> objectId \<Rightarrow> instant
      \<Rightarrow> modelError + attendanceRecord" where
  "updateAttendance r [] modifiedBy t = Inr r"
| "updateAttendance r (u # us) modifiedBy t =
     (if in_studentId u = [] then Inl InvalidAttendanceObject
      else (case updateStudentAllSessions r (in_studentId u) (in_sessions u) modifiedBy t of
              Inl e \<Rightarrow> Inl e
            | Inr r' \<Rightarrow> updateAttendance r' us modifiedBy t))"

section \<open>Editing a record (teacherController.js, editAttendanceRecord)\<close>

record editPatch =
  patch_attendance :: "attendanceInput list option"
  patch_startTime :: "string option"
  patch_endTime :: "string option"
  patch_isFinalized :: "bool option"

text \<open>
  The changes the handler applies between the checks and \<open>save()\<close>, after the
  attendance update: the two times, the breakdown, the lock and \<open>lastModifiedAt\<close>.
\<close>

definition applyTimes ::
    "env \<Rightarrow> string option \<Rightarrow> string option \<Rightarrow> attendanceRecord \<Rightarrow> attendanceRecord" where
  "applyTimes db st en r =
     (let r1 = (case st of None \<Rightarrow> r | Some s \<Rightarrow> r\<lparr>startTime := s\<rparr>);
          r2 = (case en of None \<Rightarrow> r1 | Some e \<Rightarrow> r1\<lparr>endTime := e\<rparr>)
      in if st \<noteq> None \<or> en \<noteq> None
         then r2\<lparr>sessionBreakdown :=
                   generateSessionBreakdown (localTZA db) (int (now db))
                     (startTime r2) (endTime r2) (numSessions r2)\<rparr>
         else r2)"

definition editAttendanceRecord ::
    "env \<Rightarrow> objectId \<Rightarrow> string \<Rightarrow> editPatch \<Rightarrow> attendanceRecord list
      \<Rightarrow> (error + attendanceRecord) \<times> attendanceRecord list" where
  "editAttendanceRecord db userId rid patch store =
     (let st = truthy (map_option trim (patch_startTime patch));
          en = truthy (map_option trim (patch_endTime patch))
      in case findTeacherByUserId db userId of
           None \<Rightarrow> (Inl TeacherProfileNotFound, store)
         | Some t \<Rightarrow>
             (case find (\<lambda>r. recordId r = rid) store of
                None \<Rightarrow> (Inl AttendanceRecordNotFound, store)
              | Some r \<Rightarrow>
                  if teacherId r \<noteq> teacher_id t then (Inl NotRecordOwner, store)
                  else if isFinalized r then (Inl RecordFinalized, store)
                  else if (case st of None \<Rightarrow> False | Some s \<Rightarrow> \<not> timeRegex_test s)
                  then (Inl StartTimeFormat, store)
                  else if (case en of None \<Rightarrow> False | Some e \<Rightarrow> \<not> timeRegex_test e)
                  then (Inl EndTimeFormat, store)
                  else (case (case patch_attendance patch of
                                None \<Rightarrow> Inr r
                              | Some att \<Rightarrow> updateAttendance r att userId (now db)) of
                          Inl e \<Rightarrow> (Inl (UpdateAttendanceFailed e), store)
                        | Inr r1 \<Rightarrow>
                            (let r2 = applyTimes db st en r1;
                                 r3 = (if patch_isFinalized patch = Some True
                                       then r2\<lparr>isFinalized := True\<rparr> else r2);
                                 r4 = r3\<lparr>lastModifiedAt := Some (now db)\<rparr>
                             in (Inr r4, updateFirst (\<lambda>x. recordId x = rid) (\<lambda>x. r4) store)))))"

section \<open>The roster of a class section (ClassSection.model.js)\<close>

definition addStudent :: "classSection \<Rightarrow> objectId \<Rightarrow> classSection" where
  "addStudent cs sid =
     (case find (\<lambda>s. roster_studentId s = sid) (students cs) of
        Some existingStudent \<Rightarrow>
          if roster_status existingStudent \<noteq> ''active''
          then cs\<lparr>students := updateFirst (\<lambda>s. roster_studentId s = sid)
                                  (\<lambda>s. s\<lparr>roster_status := ''active'', withdrawnAt := None\<rparr>)
                                  (students cs)\<rparr>
          else cs
      | None \<Rightarrow>
          cs\<lparr>students := students cs
                 @ [\<lparr>roster_studentId = sid, roster_status = ''active'', withdrawnAt = None\<rparr>]\<rparr>)"

definition removeStudent :: "classSection \<Rightarrow> objectId \<Rightarrow> string \<Rightarrow> instant \<Rightarrow> classSection" where
  "removeStudent cs sid reason t =
     cs\<lparr>students := updateFirst (\<lambda>s. roster_studentId s = sid)
                        (\<lambda>s. s\<lparr>roster_status :=
                                   (if reason = ''transferred'' then ''transferred'' else ''withdrawn''),
                                 withdrawnAt := Some t\<rparr>)
                        (students cs)\<rparr>"

definition getActiveStudents :: "classSection \<Rightarrow> rosterEntry list" where
  "getActiveStudents cs = filter (\<lambda>s. roster_status s = ''active'') (students cs)"

section \<open>A student's attendance in a subject (studentController.js, getAttendanceBySubject)\<close>

record attendanceSummary =
  totalClasses :: nat
  totalSessions :: int
  presentCount :: nat
  absentCount :: nat
  summaryPercentage :: jsnumber

text \<open>
  The query: the records of the subject that hold an entry of the student, within the
  dates asked for. It is kept in the order of the collection; the sort of the source
  changes no sum.
\<close>

definition findAttendanceRecords ::
    "attendanceRecord list \<Rightarrow> objectId \<Rightarrow> objectId \<Rightarrow> day option \<Rightarrow> day option
      \<Rightarrow> attendanceRecord list" where
  "findAttendanceRecords store sub sid gte lte =
     filter (\<lambda>r. subjectId r = sub
                \<and> list_ex (\<lambda>att. studentId att = sid) (attendance r)
                \<and> (case gte of None \<Rightarrow> True | Some d \<Rightarrow> d \<le> date r)
                \<and> (case lte of None \<Rightarrow> True | Some d \<Rightarrow> date r \<le> d)) store"

text \<open>What one round of \<open>attendanceRecords.map\<close> adds to the three running sums.\<close>

definition addRecord :: "objectId \<Rightarrow> int \<times> nat \<times> nat \<Rightarrow> attendanceRecord \<Rightarrow> int \<times> nat \<times> nat" where
  "addRecord sid acc r =
     (case acc of (cumulativeTotalSessions, cumulativePresentCount, cumulativeAbsentCount) \<Rightarrow>
        (case find (\<lambda>att. studentId att = sid) (attendance r) of
           Some studentAtt \<Rightarrow>
             (cumulativeTotalSessions + numSessions r,
              cumulativePresentCount + totalPresent studentAtt,
              cumulativeAbsentCount + totalAbsent studentAtt)
         | None \<Rightarrow> acc))"

definition summarize :: "objectId \<Rightarrow> attendanceRecord list \<Rightarrow> attendanceSummary" where
  "summarize sid attendanceRecords =
     (if attendanceRecords = []
      then \<lparr>totalClasses = 0, totalSessions = 0, presentCount = 0, absentCount = 0,
            summaryPercentage = Num 0\<rparr>
      else (case foldl (addRecord sid) (0, 0, 0) attendanceRecords of
              (cumulativeTotalSessions, cumulativePresentCount, cumulativeAbsentCount) \<Rightarrow>
                \<lparr>totalClasses = length attendanceRecords,
                 totalSessions = cumulativeTotalSessions,
                 presentCount = cumulativePresentCount,
                 absentCount = cumulativeAbsentCount,
                 summaryPercentage =
                   (if cumulativeTotalSessions > 0
                    then jsPercentage cumulativePresentCount cumulativeTotalSessions
                    else Num 0)\<rparr>))"

text \<open>The handler; the list of formatted records it also returns is left out.\<close>

definition getAttendanceBySubject ::
    "env \<Rightarrow> objectId \<Rightarrow> objectId \<Rightarrow> string option \<Rightarrow> string option \<Rightarrow> attendanceRecord list
      \<Rightarrow> error + attendanceSummary" where
  "getAttendanceBySubject db userId sub startDate endDate store =
     (case findStudentByUserId db userId of
        None \<Rightarrow> Inl StudentProfileNotFound
      | Some st \<Rightarrow>
          if \<not> list_ex (\<lambda>enrollment. enrollment = sub) (enrolledSubjects st)
          then Inl NotEnrolledInSubject
          else (case findSubjectById db sub of
                  None \<Rightarrow> Inl SubjectNotFound
                | Some sbj \<Rightarrow>
                    (case (case truthy startDate of
                             None \<Rightarrow> Inr None
                           | Some d \<Rightarrow> (case parseDate db d of
                                          None \<Rightarrow> Inl StartDateInvalidFormat
                                        | Some parsed \<Rightarrow> Inr (Some parsed))) of
                       Inl e \<Rightarrow> Inl e
                     | Inr gte \<Rightarrow>
                         (case (case truthy endDate of
                                  None \<Rightarrow> Inr None
                                | Some d \<Rightarrow> (case parseDate db d of
                                               None \<Rightarrow> Inl EndDateInvalidFormat
                                             | Some parsed \<Rightarrow> Inr (Some parsed))) of
                            Inl e \<Rightarrow> Inl e
                          | Inr lte \<Rightarrow>
                              Inr (summarize (student_id st)
                                     (findAttendanceRecords store sub (student_id st) gte lte))))))"

section \<open>Consistency of the stored totals\<close>

text \<open>
  An entry is consistent for \<open>n\<close> sessions when its two totals add up to \<open>n\<close>, it holds
  \<open>n\<close> session marks, and each mark is present or absent.
\<close>

definition statusesValid :: "sessionMark list \<Rightarrow> bool" where
  "statusesValid ss = list_all (\<lambda>s. status s = PRESENT \<or> status s = ABSENT) ss"

definition entryOK :: "int \<Rightarrow> studentAttendance \<Rightarrow> bool" where
  "entryOK n e = (int (totalPresent e + totalAbsent e) = n
                  \<and> int (length (sessions e)) = n
                  \<and> statusesValid (sessions e))"

definition recordOK :: "attendanceRecord \<Rightarrow> bool" where
  "recordOK r = list_all (entryOK (numSessions r)) (attendance r)"

text \<open>
  The collections that the operations can build from the empty one: creation by
  \<open>markAttendance\<close>, an edit by \<open>editAttendanceRecord\<close>, and the two methods of a record
  that no handler calls, \<open>updateStudentSession\<close> and \<open>recalculateAllTotals\<close>, each
  followed by \<open>save()\<close>. The lookups and the clock may differ from step to step.
\<close>

inductive reachable :: "attendanceRecord list \<Rightarrow> bool" where
  empty: "reachable []"
| mark: "reachable store \<Longrightarrow> markAttendance db userId req store = (Inr r, store')
           \<Longrightarrow> reachable store'"
| edit: "reachable store \<Longrightarrow> editAttendanceRecord db userId rid patch store = (Inr r, store')
           \<Longrightarrow> reachable store'"
| session: "reachable store \<Longrightarrow> i < length store
           \<Longrightarrow> updateStudentSession (store ! i) sid num newStatus modifiedBy t = Inr r
           \<Longrightarrow> reachable (store[i := r])"
| recalculate: "reachable store \<Longrightarrow> i < length store
           \<Longrightarrow> reachable (store[i := recalculateAllTotals (store ! i)])"


text \<open>What a successful edit stores.\<close>

definition editResult :: "env \<Rightarrow> editPatch \<Rightarrow> attendanceRecord \<Rightarrow> attendanceRecord" where
  "editResult db patch r1 =
     (let r2 = applyTimes db (truthy (map_option trim (patch_startTime patch)))
                 (truthy (map_option trim (patch_endTime patch))) r1;
          r3 = (if patch_isFinalized patch = Some True then r2\<lparr>isFinalized := True\<rparr> else r2)
      in r3\<lparr>lastModifiedAt := Some (now db)\<rparr>)"


section \<open>A worked example\<close>

text \<open>
  One subject and one class section of teacher \<open>T1\<close> (user \<open>U1\<close>); student \<open>S1\<close> is on
  the roster, student \<open>S2\<close> was added and then removed again, student \<open>S3\<close> was never
  on it; all three are enrolled in the subject; teacher \<open>T2\<close> (user \<open>U2\<close>) teaches
  elsewhere. The process runs five and a half hours ahead of UTC, without a clock change.
\<close>

definition exSubject :: subject where
  "exSubject = \<lparr>subject_id = ''SUB1'', subjectCode = ''MAT101''\<rparr>"

definition exSection :: classSection where
  "exSection =
     removeStudent
       (addStudent
          (addStudent \<lparr>cs_id = ''CS1'', cs_subject = exSubject, cs_teacherId = ''T1'',
                       cs_semester = 3, cs_sectionName = ''A'', students = [], isActive = True\<rparr>
             ''S1'')
          ''S2'')
       ''S2'' ''withdrawn'' 100"

definition exDb :: env where
  "exDb = \<lparr>findTeacherByUserId =
               (\<lambda>u. if u = ''U1'' then Some \<lparr>teacher_id = ''T1'', teacher_userId = ''U1''\<rparr>
                    else if u = ''U2'' then Some \<lparr>teacher_id = ''T2'', teacher_userId = ''U2''\<rparr>
                    else None),
            findStudentByUserId =
               (\<lambda>u. if u = ''U3'' then Some \<lparr>student_id = ''S1'', student_userId = ''U3'',
                                              enrolledSubjects = [''SUB1'']\<rparr>
                    else None),
            findStudentById =
               (\<lambda>i. if i = ''S1'' then Some \<lparr>student_id = ''S1'', student_userId = ''U3'',
                                              enrolledSubjects = [''SUB1'']\<rparr>
                    else if i = ''S2'' then Some \<lparr>student_id = ''S2'', student_userId = ''U4'',
                                                   enrolledSubjects = [''SUB1'']\<rparr>
                    else if i = ''S3'' then Some \<lparr>student_id = ''S3'', student_userId = ''U5'',
                                                   enrolledSubjects = [''SUB1'']\<rparr>
                    else None),
            findSubjectById = (\<lambda>i. if i = ''SUB1'' then Some exSubject else None),
            findClassSectionById = (\<lambda>i. if i = ''CS1'' then Some exSection else None),
            parseDate = (\<lambda>s. if s = ''07-11-2025'' then Some 20399 else None),
            formatDate = (\<lambda>d. ''07-11-2025''),
            today = 20400,
            now = 123,
            localTZA = (\<lambda>t isUTC. 19800000)\<rparr>"

definition exMark :: "objectId \<Rightarrow> sessionMark list \<Rightarrow> markRequest" where
  "exMark sid ss =
     \<lparr>req_classSectionId = Some ''CS1'', req_date = Some ''07-11-2025'',
      req_startTime = Some ''09:00'', req_endTime = Some ''10:30'',
      req_numSessions = Some 2,
      req_attendance = Some [\<lparr>in_studentId = sid, in_sessions = ss\<rparr>]\<rparr>"

definition exSessions :: "sessionMark list" where
  "exSessions = [\<lparr>sessionNumber = 1, status = ''present''\<rparr>,
                 \<lparr>sessionNumber = 2, status = ''absent''\<rparr>]"

text \<open>The record that marking \<open>exSessions\<close> for a student creates.\<close>

definition exRecord :: "objectId \<Rightarrow> attendanceRecord" where
  "exRecord sid =
     \<lparr>recordId = ''ATT_07112025_MAT101_SEM3_SECA_123'', subjectId = ''SUB1'',
      teacherId = ''T1'', classSectionId = ''CS1'', date = 20399,
      startTime = ''09:00'', endTime = ''10:30'', semester = 3, numSessions = 2,
      sessionBreakdown = [\<lparr>slotNumber = 1, slotStart = ''09:00'', slotEnd = ''09:45''\<rparr>,
                          \<lparr>slotNumber = 2, slotStart = ''09:45'', slotEnd = ''10:30''\<rparr>],
      attendance = [\<lparr>studentId = sid, sessions = exSessions, totalPresent = 1,
                      totalAbsent = 1, attendancePercentage = Num 50\<rparr>],
      markedBy = ''T1'', markedAt = 123, lastModifiedBy = None, lastModifiedAt = None,
      isFinalized = False\<rparr>"

definition noPatch :: editPatch where
  "noPatch = \<lparr>patch_attendance = None, patch_startTime = None, patch_endTime = None,
              patch_isFinalized = None\<rparr>"

section \<open>Session arrays that must be refused\<close>

text \<open>A sessions array with a repeated number or without some number of 1..n.\<close>

definition badSessions :: "int \<Rightarrow> sessionMark list \<Rightarrow> bool" where
  "badSessions n ss = (\<not> distinct (map sessionNumber ss)
                       \<or> (\<exists>k \<in> set [1..n]. k \<notin> set (map sessionNumber ss)))"

text \<open>A sessions array that marks session 1 twice, and the request \<open>exMark\<close> once checked.\<close>

definition dupSessions :: "sessionMark list" where
  "dupSessions = [\<lparr>sessionNumber = 1, status = ''present''\<rparr>,
                  \<lparr>sessionNumber = 1, status = ''absent''\<rparr>]"

definition exValid :: "objectId \<Rightarrow> sessionMark list \<Rightarrow> validRequest" where
  "exValid sid ss =
     \<lparr>vr_classSectionId = ''CS1'', vr_date = ''07-11-2025'', vr_startTime = ''09:00'',
      vr_endTime = ''10:30'', vr_numSessions = 2,
      vr_attendance = [\<lparr>in_studentId = sid, in_sessions = ss\<rparr>]\<rparr>"


text \<open>
  What makes a student's entry invalid for a class section and \<open>n\<close> sessions: an unknown
  student, one not enrolled in the subject, one not on the roster, or a sessions array
  of the wrong length, with a repeated or missing number, a number out of range or a
  status that is neither present nor absent.
\<close>

definition entryInvalid :: "env \<Rightarrow> classSection \<Rightarrow> int \<Rightarrow> attendanceInput \<Rightarrow> bool" where
  "entryInvalid db cs n x =
     (case findStudentById db (in_studentId x) of
        None \<Rightarrow> True
      | Some st \<Rightarrow>
          subject_id (cs_subject cs) \<notin> set (enrolledSubjects st)
        \<or> in_studentId x \<notin> set (map roster_studentId (students cs))
        \<or> int (length (in_sessions x)) \<noteq> n
        \<or> badSessions n (in_sessions x)
        \<or> list_ex (\<lambda>s. sessionNumber s < 1 \<or> n < sessionNumber s) (in_sessions x)
        \<or> list_ex (\<lambda>s. status s \<notin> set ATTENDANCE_STATUS_values) (in_sessions x))"

text \<open>The example record once finalized, its id, and three patches.\<close>

definition exFinal :: attendanceRecord where
  "exFinal = (exRecord ''S1'')\<lparr>isFinalized := True\<rparr>"

definition exId :: string where
  "exId = ''ATT_07112025_MAT101_SEM3_SECA_123''"

definition exTimes :: editPatch where
  "exTimes = noPatch\<lparr>patch_startTime := Some ''10:00'', patch_endTime := Some '' 09:00''\<rparr>"


definition exFinalize :: editPatch where
  "exFinalize = noPatch\<lparr>patch_isFinalized := Some True\<rparr>"

definition exRemark :: editPatch where
  "exRemark = noPatch\<lparr>patch_attendance :=
       Some [\<lparr>in_studentId = ''S1'',
              in_sessions = [\<lparr>sessionNumber = 2, status = ''present''\<rparr>]\<rparr>]\<rparr>"

definition exRemarked :: attendanceRecord where
  "exRemarked =
     (exRecord ''S1'')\<lparr>attendance :=
         [\<lparr>studentId = ''S1'',
           sessions = [\<lparr>sessionNumber = 1, status = ''present''\<rparr>,
                       \<lparr>sessionNumber = 2, status = ''present''\<rparr>],
           totalPresent = 2, totalAbsent = 0, attendancePercentage = Num 100\<rparr>],
       lastModifiedBy := Some ''U1'', lastModifiedAt := Some 123\<rparr>"

section \<open>The parts of an edit\<close>

text \<open>
  The two times of a patch as the handler reads them, the test both must pass, and the
  attendance update that comes before the times are stored.
\<close>

definition patchStart :: "editPatch \<Rightarrow> string option" where
  "patchStart patch = truthy (map_option trim (patch_startTime patch))"

definition patchEnd :: "editPatch \<Rightarrow> string option" where
  "patchEnd patch = truthy (map_option trim (patch_endTime patch))"

definition wellFormatted :: "string option \<Rightarrow> bool" where
  "wellFormatted x = (case x of None \<Rightarrow> True | Some s \<Rightarrow> timeRegex_test s)"

definition attendanceStep :: "env \<Rightarrow> objectId \<Rightarrow> editPatch \<Rightarrow> attendanceRecord \<Rightarrow> modelError + attendanceRecord" where
  "attendanceStep db u patch r =
     (case patch_attendance patch of None \<Rightarrow> Inr r
      | Some att \<Rightarrow> updateAttendance r att u (now db))"

section \<open>Rounding ties\<close>

text \<open>
  \<open>present / numSessions * 100\<close> lies exactly halfway between two neighbouring
  hundredths when \<open>10000 * present / numSessions + 1 / 2\<close> is an integer, that is when
  \<open>2 * numSessions\<close> divides \<open>20000 * present + numSessions\<close>.
\<close>

definition roundingTie :: "nat \<Rightarrow> int \<Rightarrow> bool" where
  "roundingTie p n = ((2 * n) dvd (20000 * int p + n))"

section \<open>What a record holds for one student\<close>

text \<open>
  The entry that \<open>find\<close> returns for a student, and the sessions, presences and
  absences a record contributes to the student's sums (nothing when it has no entry).
\<close>

definition entryOf :: "objectId \<Rightarrow> attendanceRecord \<Rightarrow> studentAttendance option" where
  "entryOf sid r = find (\<lambda>att. studentId att = sid) (attendance r)"

definition presentIn :: "objectId \<Rightarrow> attendanceRecord \<Rightarrow> nat" where
  "presentIn sid r = (case entryOf sid r of Some e \<Rightarrow> totalPresent e | None \<Rightarrow> 0)"

definition absentIn :: "objectId \<Rightarrow> attendanceRecord \<Rightarrow> nat" where
  "absentIn sid r = (case entryOf sid r of Some e \<Rightarrow> totalAbsent e | None \<Rightarrow> 0)"

definition sessionsIn :: "objectId \<Rightarrow> attendanceRecord \<Rightarrow> int" where
  "sessionsIn sid r = (case entryOf sid r of Some e \<Rightarrow> numSessions r | None \<Rightarrow> 0)"

text \<open>
  An entry whose totals are the counts of its present and absent sessions, add up to
  \<open>n\<close>, and whose percentage is the one computed from them.
\<close>

definition entryComputed :: "int \<Rightarrow> studentAttendance \<Rightarrow> bool" where
  "entryComputed n e =
     (totalPresent e = countStatus PRESENT (sessions e)
      \<and> totalAbsent e = countStatus ABSENT (sessions e)
      \<and> int (totalPresent e + totalAbsent e) = n
      \<and> attendancePercentage e = jsPercentage (totalPresent e) n)"

text \<open>
  A record with a number of sessions that the schema admits and all of whose entries
  are computed.
\<close>

definition recordComputed :: "attendanceRecord \<Rightarrow> bool" where
  "recordComputed r =
     (1 \<le> numSessions r \<and> numSessions r \<le> MAX_SESSIONS_PER_CLASS
      \<and> list_all (entryComputed (numSessions r)) (attendance r))"

text \<open>The bound of the date range that a query parameter gives, if any.\<close>

definition dateBound :: "env \<Rightarrow> string option \<Rightarrow> day option" where
  "dateBound db x = (case truthy x of None \<Rightarrow> None | Some d \<Rightarrow> parseDate db d)"

section \<open>More examples\<close>

text \<open>
  A sessions array for \<open>n\<close> sessions with the first \<open>p\<close> present, and a record of the
  example class with \<open>n\<close> sessions of which student \<open>S1\<close> attended the first \<open>p\<close>, stored
  with the percentage given. \<open>exTwo\<close> holds two classes of 2 and 3 sessions with 2 and 1
  presences; \<open>exSixteen\<close> holds sixteen classes of 10 sessions with 23 presences in
  all.
\<close>

definition marksWith :: "int \<Rightarrow> nat \<Rightarrow> sessionMark list" where
  "marksWith n p = map (\<lambda>i. \<lparr>sessionNumber = i, status = (if i \<le> int p then PRESENT else ABSENT)\<rparr>) [1..n]"

definition exClassOf :: "string \<Rightarrow> int \<Rightarrow> nat \<Rightarrow> rat \<Rightarrow> attendanceRecord" where
  "exClassOf rid n p pct =
     (exRecord ''S1'')\<lparr>recordId := rid, endTime := ''18:00'', numSessions := n,
        sessionBreakdown := map (slotAt 1 540) [1..n],
        attendance := [\<lparr>studentId = ''S1'', sessions = marksWith n p, totalPresent = p,
                         totalAbsent = nat n - p, attendancePercentage = Num pct\<rparr>]\<rparr>"

definition exTwo :: "attendanceRecord list" where
  "exTwo = [exClassOf ''R1'' 2 2 100, exClassOf ''R2'' 3 1 (fl (3333 / 100))]"

definition exSixteen :: "attendanceRecord list" where
  "exSixteen =
     [exClassOf ''R01'' 10 10 100, exClassOf ''R02'' 10 10 100, exClassOf ''R03'' 10 3 30,
      exClassOf ''R04'' 10 0 0, exClassOf ''R05'' 10 0 0, exClassOf ''R06'' 10 0 0,
      exClassOf ''R07'' 10 0 0, exClassOf ''R08'' 10 0 0, exClassOf ''R09'' 10 0 0,
      exClassOf ''R10'' 10 0 0, exClassOf ''R11'' 10 0 0, exClassOf ''R12'' 10 0 0,
      exClassOf ''R13'' 10 0 0, exClassOf ''R14'' 10 0 0, exClassOf ''R15'' 10 0 0,
      exClassOf ''R16'' 10 0 0]"

definition exEntry :: studentAttendance where
  "exEntry = \<lparr>studentId = ''S1'', sessions = exSessions, totalPresent = 1, totalAbsent = 1,
               attendancePercentage = Num 50\<rparr>"

section \<open>A day with a clock change\<close>

text \<open>
  The zone America/New_York around 8 March 2026, when the clocks went from 02:00 to
  03:00 at 07:00 UTC: five hours behind UTC before, four hours after; the local times
  from 02:00 to 03:00 of that day do not exist. \<open>exDbNewYork\<close> is the example with the
  process in this zone at 15:00 UTC (11:00 local time) of that day.
\<close>

definition newYork :: timeZone where
  "newYork t isUTC =
     (if isUTC then (if t < 1772953200000 then - 18000000 else - 14400000)
      else (if t < 1772938800000 then - 18000000 else - 14400000))"

definition exDbNewYork :: env where
  "exDbNewYork = exDb\<lparr>today := 20520, now := 1772982000000, localTZA := newYork\<rparr>"

definition exEarly :: editPatch where
  "exEarly = noPatch\<lparr>patch_startTime := Some ''02:30'', patch_endTime := Some ''04:00''\<rparr>"


section \<open>Properties of time strings\<close>

lemma digitChar_digitVal: "isDigit c \<Longrightarrow> digitChar (digitVal c) = c"
  by (simp add: isDigit_def digitChar_def digitVal_def)

lemma digitVal_digitChar: "n < 10 \<Longrightarrow> digitVal (digitChar n) = n"
  by (simp add: digitChar_def digitVal_def)

lemma isDigit_digitChar: "n < 10 \<Longrightarrow> isDigit (digitChar n)"
  by (simp add: digitChar_def isDigit_def)

lemma digitVal_lt10: "isDigit c \<Longrightarrow> digitVal c < 10"
  by (auto simp add: isDigit_def digitVal_def)

lemma isDigit_not_colon: "isDigit c \<Longrightarrow> c \<noteq> CHR '':''"
  by (auto simp add: isDigit_def)

lemma digitChar_0: "digitChar 0 = CHR ''0''"
  unfolding digitChar_def by code_simp

lemma padStart2_showNat:
  "n < 100 \<Longrightarrow> padStart2 (showNat n) = [digitChar (n div 10), digitChar (n mod 10)]"
proof (cases "n < 10")
  case True
  then show ?thesis
    by (simp add: showNat.simps [of n] padStart2_def digitChar_0)
next
  case False
  assume "n < 100"
  with False have "n div 10 < 10" by simp
  with False show ?thesis
    by (simp add: showNat.simps [of n] showNat.simps [of "n div 10"] padStart2_def)
qed

lemma Number_two: "isDigit a \<Longrightarrow> isDigit b \<Longrightarrow> Number [a, b] = Some (10 * digitVal a + digitVal b)"
  by (simp add: Number_def)

lemma split_colon_time:
  "a \<noteq> CHR '':'' \<Longrightarrow> b \<noteq> CHR '':'' \<Longrightarrow> d \<noteq> CHR '':'' \<Longrightarrow> e \<noteq> CHR '':'' \<Longrightarrow>
   split_colon [a, b, CHR '':'', d, e] = [[a, b], [d, e]]"
  by simp

lemma parseHourMinute_digits:
  assumes "isDigit a" "isDigit b" "isDigit d" "isDigit e"
  shows "parseHourMinute [a, b, CHR '':'', d, e]
           = Some (10 * digitVal a + digitVal b, 10 * digitVal d + digitVal e)"
  using assms
  by (simp add: parseHourMinute_def split_colon_time isDigit_not_colon Number_two)

lemma wallClock_digits:
  "wallClock t =
     [digitChar (nat ((t div 60) mod 24) div 10), digitChar (nat ((t div 60) mod 24) mod 10),
      CHR '':'',
      digitChar (nat (t mod 60) div 10), digitChar (nat (t mod 60) mod 10)]"
proof -
  have "nat ((t div 60) mod 24) < 100" "nat (t mod 60) < 100"
    by (simp_all add: nat_less_iff) 
  then show ?thesis
    by (simp add: wallClock_def padStart2_showNat)
qed

lemma hm_bounds:
  "nat ((t div 60) mod 24) < 24" "nat (t mod 60) < 60"
  by (simp_all add: nat_less_iff)

lemma small_digits: "(n::nat) < 100 \<Longrightarrow> n div 10 < 10 \<and> n mod 10 < 10 \<and> 10 * (n div 10) + n mod 10 = n"
  by simp

lemma parse_format:
  "parseHourMinute (wallClock t) = Some (nat ((t div 60) mod 24), nat (t mod 60))"
proof -
  define h where "h = nat ((t div 60) mod 24)"
  define m where "m = nat (t mod 60)"
  have "h < 100" "m < 100" using hm_bounds [of t] by (simp_all add: h_def m_def)
  then have d: "h div 10 < 10" "h mod 10 < 10" "m div 10 < 10" "m mod 10 < 10"
    and e: "10 * (h div 10) + h mod 10 = h" "10 * (m div 10) + m mod 10 = m"
    using small_digits by blast+
  have "wallClock t =
     [digitChar (h div 10), digitChar (h mod 10), CHR '':'', digitChar (m div 10), digitChar (m mod 10)]"
    unfolding h_def m_def by (rule wallClock_digits)
  moreover have "parseHourMinute [digitChar (h div 10), digitChar (h mod 10), CHR '':'', digitChar (m div 10), digitChar (m mod 10)]
      = Some (10 * digitVal (digitChar (h div 10)) + digitVal (digitChar (h mod 10)),
              10 * digitVal (digitChar (m div 10)) + digitVal (digitChar (m mod 10)))"
    using d by (intro parseHourMinute_digits isDigit_digitChar)
  ultimately show ?thesis
    using d e by (simp only: digitVal_digitChar h_def [symmetric] m_def [symmetric])
qed

lemma minutes_of_day: "((t::int) div 60 mod 24) * 60 + t mod 60 = t mod 1440"
proof -
  have "t mod 1440 = 60 * ((t div 60) mod 24) + t mod 60"
    using zmod_zmult2_eq [of 24 t 60] by simp
  then show ?thesis by simp
qed

lemma toMinutes_format: "toMinutes (wallClock t) = Some (t mod 1440)"
  using minutes_of_day [of t]
  by (simp add: toMinutes_def parse_format)

lemma hm_split:
  fixes h m :: nat
  assumes "h < 24" "m < 60"
  shows "nat (((int h * 60 + int m) div 60) mod 24) = h" "nat ((int h * 60 + int m) mod 60) = m"
proof -
  have "(int h * 60 + int m) div 60 = int h" using assms by simp
  moreover have "(int h * 60 + int m) mod 60 = int m" using assms by simp
  ultimately show "nat (((int h * 60 + int m) div 60) mod 24) = h" "nat ((int h * 60 + int m) mod 60) = m"
    using assms by simp_all
qed

lemma timeRegex_shape:
  assumes "timeRegex_test s"
  obtains a b d e where "s = [a, b, CHR '':'', d, e]"
    "isDigit a" "isDigit b" "isDigit d" "isDigit e"
    "10 * digitVal a + digitVal b < 24" "10 * digitVal d + digitVal e < 60"
proof -
  from assms obtain a b c d e where s: "s = [a, b, c, d, e]"
    by (cases s rule: timeRegex_test.cases) auto
  have two: "isDigit (CHR ''2'')" "digitVal (CHR ''2'') = 2"
    by (simp_all add: isDigit_def digitVal_def)
  from assms s have c: "c = CHR '':''" and d: "isDigit d" "digitVal d \<le> 5" and e: "isDigit e"
    and b: "isDigit b"
    and ab: "(isDigit a \<and> digitVal a \<le> 1) \<or> (a = CHR ''2'' \<and> digitVal b \<le> 3)"
    by auto
  from ab two have a: "isDigit a" by auto
  from ab two digitVal_lt10 [OF b] have h: "10 * digitVal a + digitVal b < 24" by auto
  from d digitVal_lt10 [OF e] have m: "10 * digitVal d + digitVal e < 60" by auto
  show thesis using that [OF _ a b d(1) e h m] s c by simp
qed

lemma timeRegex_parse_format:
  assumes "timeRegex_test s"
  shows "\<exists>h m. parseHourMinute s = Some (h, m) \<and> h < 24 \<and> m < 60
           \<and> wallClock ((int h * 60 + int m)) = s"
proof -
  from assms obtain a b d e where s: "s = [a, b, CHR '':'', d, e]"
    and dg: "isDigit a" "isDigit b" "isDigit d" "isDigit e"
    and h: "10 * digitVal a + digitVal b < 24" and m: "10 * digitVal d + digitVal e < 60"
    by (rule timeRegex_shape)
  define hh where "hh = 10 * digitVal a + digitVal b"
  define mm where "mm = 10 * digitVal d + digitVal e"
  have p: "parseHourMinute s = Some (hh, mm)"
    using dg by (simp add: s hh_def mm_def parseHourMinute_digits)
  have lt: "digitVal a < 10" "digitVal b < 10" "digitVal d < 10" "digitVal e < 10"
    using dg by (simp_all add: digitVal_lt10)
  have t1: "nat (((int hh * 60 + int mm) div 60) mod 24) = hh"
    using h m unfolding hh_def [symmetric] mm_def [symmetric] by (rule hm_split)
  have t2: "nat ((int hh * 60 + int mm) mod 60) = mm"
    using h m unfolding hh_def [symmetric] mm_def [symmetric] by (rule hm_split)
  have q: "hh div 10 = digitVal a" "hh mod 10 = digitVal b" "mm div 10 = digitVal d" "mm mod 10 = digitVal e"
    using lt by (simp_all add: hh_def mm_def)
  have "wallClock ((int hh * 60 + int mm)) = s"
    unfolding wallClock_digits t1 t2 q s using dg by (simp add: digitChar_digitVal)
  with p h m show ?thesis unfolding hh_def [symmetric] mm_def [symmetric] by blast
qed

section \<open>Properties of dates\<close>

lemma time_parts:
  "MakeDate (Day l) (MakeTime (HourFromTime l) (MinFromTime l) (SecFromTime l) (msFromTime l)) = l"
proof -
  define a where "a = l div 1000"
  define b where "b = a div 60"
  define c where "c = b div 60"
  have m: "l div 60000 = b"
    using zdiv_zmult2_eq [of 60 l 1000] by (simp add: a_def b_def)
  have h: "l div 3600000 = c"
    using zdiv_zmult2_eq [of 60 l 60000] m by (simp add: c_def)
  have d: "l div 86400000 = c div 24"
    using zdiv_zmult2_eq [of 24 l 3600000] h by simp
  have 1: "l = 1000 * a + l mod 1000" by (simp add: a_def)
  have 2: "a = 60 * b + a mod 60" by (simp add: b_def)
  have 3: "b = 60 * c + b mod 60" by (simp add: c_def)
  have 4: "c = 24 * (c div 24) + c mod 24" by simp
  have "(c div 24) * 86400000 + ((c mod 24) * 3600000 + (b mod 60) * 60000
          + (a mod 60) * 1000 + l mod 1000) = l"
    using 1 2 3 4 by linarith
  then show ?thesis
    by (simp add: MakeDate_def MakeTime_def Day_def HourFromTime_def MinFromTime_def
        SecFromTime_def msFromTime_def msPerDay_def msPerHour_def msPerMinute_def
        msPerSecond_def m h d a_def [symmetric])
qed

lemma setMinutes_add:
  "setMinutes tz (TimeValue u) (Some (MinFromTime (LocalTime tz u) + d))
     = TimeClip (UTC tz (LocalTime tz u + d * msPerMinute))"
proof -
  define l where "l = LocalTime tz u"
  have "MakeDate (Day l) (MakeTime (HourFromTime l) (MinFromTime l + d) (SecFromTime l) (msFromTime l))
          = MakeDate (Day l) (MakeTime (HourFromTime l) (MinFromTime l) (SecFromTime l) (msFromTime l))
            + d * msPerMinute"
    by (simp add: MakeDate_def MakeTime_def algebra_simps)
  then show ?thesis
    by (simp add: setMinutes_def Let_def l_def [symmetric] time_parts)
qed

lemma MinFromTime_nonneg: "0 \<le> MinFromTime l"
  by (simp add: MinFromTime_def)

lemma add_session:
  "setMinutes tz (TimeValue u)
       (map_option (\<lambda>m. int m + SESSION_DURATION) (getMinutes tz (TimeValue u)))
     = TimeClip (UTC tz (LocalTime tz u + SESSION_DURATION * msPerMinute))"
  using setMinutes_add [of tz u SESSION_DURATION]
  by (simp add: MinFromTime_nonneg)

lemma wallClock_day: "wallClock (d * 1440 + t) = wallClock t"
proof -
  have "(d * 1440 + t) div 60 = d * 24 + t div 60" by simp
  moreover have "(d * 1440 + t) mod 60 = t mod 60"
  proof -
    have "d * 1440 + t = t + (d * 24) * 60" by simp
    then show ?thesis by (simp only: mod_mult_self1)
  qed
  ultimately show ?thesis by (simp add: wallClock_def)
qed

lemma formatHHMM_wallClock:
  "formatHHMM tz (TimeValue u) = wallClock (LocalTime tz u div msPerMinute)"
proof -
  define l where "l = LocalTime tz u"
  have "l div 3600000 = l div 60000 div 60"
    using zdiv_zmult2_eq [of 60 l 60000] by simp
  then show ?thesis
    by (simp add: formatHHMM_def pad2_def wallClock_def HourFromTime_def MinFromTime_def
        msPerHour_def msPerMinute_def l_def [symmetric])
qed

lemma boundary_minutes:
  "boundary tz clock t k div msPerMinute = Day (LocalTime tz clock) * 1440 + (t + SESSION_DURATION * k)"
proof -
  have "boundary tz clock t k
          = (Day (LocalTime tz clock) * 1440 + (t + SESSION_DURATION * k)) * 60000"
    by (simp add: boundary_def MakeDate_def msPerDay_def msPerMinute_def algebra_simps)
  then show ?thesis by (simp add: msPerMinute_def)
qed

lemma boundary_next:
  "boundary tz clock t k + SESSION_DURATION * msPerMinute = boundary tz clock t (k + 1)"
  by (simp add: boundary_def MakeDate_def algebra_simps)

lemma boundary_shift:
  "boundary tz clock (t + SESSION_DURATION) k = boundary tz clock t (k + 1)"
  by (simp add: boundary_def MakeDate_def algebra_simps)

lemma boundariesExist_iff:
  "boundariesExist tz clock t n \<longleftrightarrow>
     (\<forall>k. 0 \<le> k \<and> k \<le> n \<longrightarrow>
        LocalTime tz (UTC tz (boundary tz clock t k)) = boundary tz clock t k
      \<and> \<bar>UTC tz (boundary tz clock t k)\<bar> \<le> 8640000000000000)"
  by (auto simp add: boundariesExist_def list_all_iff)

lemma breakdownLoop_map:
  assumes "boundariesExist tz clock t (n + 1 - i)"
  shows "breakdownLoop tz i n (TimeValue (UTC tz (boundary tz clock t 0))) = map (slotAt i t) [i..n]"
  using assms
proof (induction "nat (n + 1 - i)" arbitrary: i t)
  case 0
  then have "\<not> i \<le> n" by simp
  then show ?case by (simp add: breakdownLoop.simps [of tz i])
next
  case (Suc j)
  then have le: "i \<le> n" and j: "j = nat (n + 1 - (i + 1))" by simp_all
  from Suc.prems le
  have b0: "LocalTime tz (UTC tz (boundary tz clock t 0)) = boundary tz clock t 0"
    and b1: "LocalTime tz (UTC tz (boundary tz clock t 1)) = boundary tz clock t 1"
    and c1: "\<bar>UTC tz (boundary tz clock t 1)\<bar> \<le> 8640000000000000"
    by (simp_all add: boundariesExist_iff)
  have ex: "boundariesExist tz clock (t + SESSION_DURATION) (n + 1 - (i + 1))"
    unfolding boundariesExist_iff boundary_shift
  proof (intro allI impI)
    fix k :: int
    assume "0 \<le> k \<and> k \<le> n + 1 - (i + 1)"
    then have "0 \<le> k + 1 \<and> k + 1 \<le> n + 1 - i" by simp
    with Suc.prems
    show "LocalTime tz (UTC tz (boundary tz clock t (k + 1))) = boundary tz clock t (k + 1)
          \<and> \<bar>UTC tz (boundary tz clock t (k + 1))\<bar> \<le> 8640000000000000"
      unfolding boundariesExist_iff by blast
  qed
  have nxt: "setMinutes tz (TimeValue (UTC tz (boundary tz clock t 0)))
               (map_option (\<lambda>m. int m + SESSION_DURATION)
                  (getMinutes tz (TimeValue (UTC tz (boundary tz clock t 0)))))
             = TimeValue (UTC tz (boundary tz clock (t + SESSION_DURATION) 0))"
    unfolding add_session b0 boundary_next boundary_shift
    using c1 by (simp add: TimeClip_def)
  have rest: "breakdownLoop tz (i + 1) n (TimeValue (UTC tz (boundary tz clock (t + SESSION_DURATION) 0)))
          = map (slotAt i t) [i + 1..n]"
  proof -
    have "breakdownLoop tz (i + 1) n (TimeValue (UTC tz (boundary tz clock (t + SESSION_DURATION) 0)))
          = map (slotAt (i + 1) (t + SESSION_DURATION)) [i + 1..n]"
      using Suc.hyps(1) [OF j ex] .
    also have "\<dots> = map (slotAt i t) [i + 1..n]"
      by (rule map_cong) (simp_all add: slotAt_def algebra_simps)
    finally show ?thesis .
  qed
  have s: "formatHHMM tz (TimeValue (UTC tz (boundary tz clock t 0))) = wallClock t"
    by (simp add: formatHHMM_wallClock b0 boundary_minutes wallClock_day)
  have e: "formatHHMM tz (TimeValue (UTC tz (boundary tz clock (t + SESSION_DURATION) 0)))
             = wallClock (t + SESSION_DURATION)"
    unfolding boundary_shift
    by (simp add: formatHHMM_wallClock b1 boundary_minutes wallClock_day)
  have u: "[i..n] = i # [i + 1..n]" using le by (simp add: upto.simps)
  have "breakdownLoop tz i n (TimeValue (UTC tz (boundary tz clock t 0)))
          = \<lparr>slotNumber = i, slotStart = wallClock t, slotEnd = wallClock (t + SESSION_DURATION)\<rparr>
            # map (slotAt i t) [i + 1..n]"
    unfolding breakdownLoop.simps [of tz i n "TimeValue (UTC tz (boundary tz clock t 0))"]
      Let_def nxt rest s e
    using le by simp
  then show ?case
    unfolding u by (simp add: slotAt_def)
qed

text \<open>
  When none of its slot boundaries is a local time that the current day skips, the
  breakdown holds the slots on the clock.
\<close>

lemma generateSessionBreakdown_map:
  assumes "parseHourMinute start = Some (h, m)"
    and "boundariesExist tz clock (int h * 60 + int m) n"
  shows "generateSessionBreakdown tz clock start finish n = map (slotAt 1 (int h * 60 + int m)) [1..n]"
proof (cases "1 \<le> n")
  case False
  then show ?thesis
    by (simp add: generateSessionBreakdown_def breakdownLoop.simps [of tz 1])
next
  case True
  from assms(2) True
  have c0: "\<bar>UTC tz (boundary tz clock (int h * 60 + int m) 0)\<bar> \<le> 8640000000000000"
    by (simp add: boundariesExist_iff)
  have "MakeDate (Day (LocalTime tz clock)) (MakeTime (int h) (int m) 0 0)
          = boundary tz clock (int h * 60 + int m) 0"
    by (simp add: boundary_def MakeDate_def MakeTime_def msPerHour_def msPerMinute_def)
  then have "setHours tz (TimeValue clock) (Some (h, m))
          = TimeValue (UTC tz (boundary tz clock (int h * 60 + int m) 0))"
    using c0 by (simp add: setHours_def TimeClip_def)
  moreover have "boundariesExist tz clock (int h * 60 + int m) (n + 1 - 1)"
    using assms(2) by simp
  ultimately show ?thesis
    using assms(1) breakdownLoop_map [of tz clock "int h * 60 + int m" n 1]
    by (simp add: generateSessionBreakdown_def)
qed

text \<open>A zone without a clock change skips no local time.\<close>

lemma boundariesExist_fixed:
  assumes "\<forall>t isUTC. tz t isUTC = c" and "\<bar>c\<bar> \<le> msPerDay"
    and "\<bar>clock\<bar> \<le> 8000000000000000" and "0 \<le> t" and "t < 1440"
    and "n \<le> MAX_SESSIONS_PER_CLASS"
  shows "boundariesExist tz clock t n"
  unfolding boundariesExist_iff
proof (intro allI impI)
  fix k :: int
  assume k: "0 \<le> k \<and> k \<le> n"
  define l where "l = clock + c"
  define a where "a = (l div 86400000) * 86400000"
  define d where "d = (t + 45 * k) * 60000"
  define b where "b = boundary tz clock t k"
  have b: "b = a + d"
    by (simp add: b_def boundary_def MakeDate_def LocalTime_def assms(1) Day_def msPerDay_def
        msPerMinute_def SESSION_DURATION_def l_def a_def d_def)
  have a: "a \<le> l" "l - 86400000 < a"
    using div_mult_mod_eq [of l 86400000] pos_mod_bound [of 86400000 l]
      pos_mod_sign [of 86400000 l] unfolding a_def by linarith+
  have "0 \<le> t + 45 * k" "t + 45 * k \<le> 1890"
    using k assms(4-6) by (simp_all add: MAX_SESSIONS_PER_CLASS_def)
  then have d: "0 \<le> d" "d \<le> 113400000"
    unfolding d_def by simp_all
  have l: "- 8000000086400000 \<le> l" "l \<le> 8000000086400000"
    using assms(2,3) by (simp_all add: l_def msPerDay_def abs_le_iff)
  have c: "- 86400000 \<le> c" "c \<le> 86400000"
    using assms(2) by (simp_all add: msPerDay_def abs_le_iff)
  have "\<bar>b - c\<bar> \<le> 8640000000000000"
    unfolding b abs_le_iff using a d l c by simp
  then show "LocalTime tz (UTC tz (boundary tz clock t k)) = boundary tz clock t k
      \<and> \<bar>UTC tz (boundary tz clock t k)\<bar> \<le> 8640000000000000"
    by (simp add: LocalTime_def UTC_def assms(1) b_def)
qed

section \<open>Properties of the session breakdown\<close>

lemma nth_upto_1: "k < nat n \<Longrightarrow> [1..n] ! k = 1 + int k"
  by (simp add: nth_upto)

text \<open>
  For a start time that matches the \<open>HH:MM\<close> pattern and \<open>numSessions \<ge> 1\<close>, when the
  current day skips none of the slot boundaries: \<open>generateSessionBreakdown\<close> returns
  exactly \<open>numSessions\<close> slots, numbered \<open>1, \<dots>, numSessions\<close> in order; the first starts
  at the start time; slot \<open>k + 1\<close> runs from minute \<open>s + 45 k\<close> to minute \<open>s + 45 k + 45\<close>
  on the clock, where \<open>s\<close> is the start time in minutes, so that its end is 45 minutes
  after its start (modulo the 1440 minutes of a day) and each slot starts where the
  one before it ends. The end time is not read.
\<close>

lemma generateSessionBreakdown_partition:
  assumes "timeRegex_test start" and "1 \<le> n" and "toMinutes start = Some s"
    and "boundariesExist tz clock s n"
  shows "(let bs = generateSessionBreakdown tz clock start finish n in
           length bs = nat n
         \<and> map slotNumber bs = [1..n]
         \<and> slotStart (bs ! 0) = start
         \<and> (\<forall>k < length bs. \<exists>a. toMinutes (slotStart (bs ! k)) = Some a
                \<and> toMinutes (slotEnd (bs ! k)) = Some ((a + SESSION_DURATION) mod 1440))
         \<and> (\<forall>k. Suc k < length bs \<longrightarrow> slotStart (bs ! Suc k) = slotEnd (bs ! k))
         \<and> (\<forall>k < length bs.
                      slotStart (bs ! k) = wallClock (s + SESSION_DURATION * int k)
                    \<and> slotEnd (bs ! k) = wallClock (s + SESSION_DURATION * int k + SESSION_DURATION)))"
proof -
  from assms(1) obtain h m where p: "parseHourMinute start = Some (h, m)"
    and f: "wallClock (int h * 60 + int m) = start"
    using timeRegex_parse_format by blast
  have s: "s = int h * 60 + int m"
    using assms(3) by (simp add: toMinutes_def p)
  define bs where "bs = generateSessionBreakdown tz clock start finish n"
  have bs: "bs = map (slotAt 1 s) [1..n]"
    unfolding bs_def s using p assms(4) [unfolded s] by (rule generateSessionBreakdown_map)
  have len: "length bs = nat n" by (simp add: bs)
  have nth: "bs ! k = slotAt 1 s (1 + int k)" if "k < length bs" for k
    using that len by (simp add: bs nth_upto_1)
  have c1: "map slotNumber bs = [1..n]"
    by (simp add: bs slotAt_def comp_def)
  have c2: "slotStart (bs ! 0) = start"
    using nth [of 0] len assms(2) f by (simp add: slotAt_def s)
  have st: "slotStart (bs ! k) = wallClock (s + SESSION_DURATION * int k)"
    and en: "slotEnd (bs ! k) = wallClock (s + SESSION_DURATION * int k + SESSION_DURATION)"
    if "k < length bs" for k
    using nth [OF that] by (simp_all add: slotAt_def)
  have c3: "\<forall>k < length bs. \<exists>a. toMinutes (slotStart (bs ! k)) = Some a
                \<and> toMinutes (slotEnd (bs ! k)) = Some ((a + SESSION_DURATION) mod 1440)"
    by (simp add: st en toMinutes_format mod_add_left_eq)
  have c4: "\<forall>k. Suc k < length bs \<longrightarrow> slotStart (bs ! Suc k) = slotEnd (bs ! k)"
  proof (intro allI impI)
    fix k assume k: "Suc k < length bs"
    then have "k < length bs" by simp
    from st [OF k] en [OF this] show "slotStart (bs ! Suc k) = slotEnd (bs ! k)"
      by (simp add: algebra_simps)
  qed
  show ?thesis
    unfolding Let_def bs_def [symmetric]
    using len c1 c2 c3 c4 st en by blast
qed

text \<open>
  In a zone without a clock change the breakdown of every class is the slots on the
  clock from its start time on.
\<close>

lemma generateSessionBreakdown_fixed_zone:
  assumes "\<forall>t isUTC. tz t isUTC = c" and "\<bar>c\<bar> \<le> msPerDay"
    and "\<bar>clock\<bar> \<le> 8000000000000000"
    and "timeRegex_test start" and "toMinutes start = Some s"
    and "n \<le> MAX_SESSIONS_PER_CLASS"
  shows "generateSessionBreakdown tz clock start finish n = map (slotAt 1 s) [1..n]"
proof -
  from assms(4) obtain h m where p: "parseHourMinute start = Some (h, m)"
    and b: "h < 24" "m < 60"
    using timeRegex_parse_format by blast
  from assms(5) p have s: "s = int h * 60 + int m" by (simp add: toMinutes_def)
  from b have "0 \<le> s" "s < 1440" by (simp_all add: s)
  from boundariesExist_fixed [OF assms(1-3) this assms(6)]
  show ?thesis
    unfolding s by (rule generateSessionBreakdown_map [OF p])
qed

text \<open>The example of the documentation, in the zone of the example.\<close>

lemma breakdown_example:
  "generateSessionBreakdown (localTZA exDb) (int (now exDb)) ''09:00'' ''10:30'' 2
     = [\<lparr>slotNumber = 1, slotStart = ''09:00'', slotEnd = ''09:45''\<rparr>,
        \<lparr>slotNumber = 2, slotStart = ''09:45'', slotEnd = ''10:30''\<rparr>]"
  by code_simp

lemma newYork_now: "localTZA exDbNewYork = newYork" "int (now exDbNewYork) = 1772982000000"
  by (simp_all add: exDbNewYork_def)

text \<open>
  Claim C6 at a failing input. The claim is that for every start time in \<open>HH:MM\<close>
  format and every \<open>numSessions \<ge> 1\<close> the breakdown has \<open>numSessions\<close> contiguous slots
  of 45 minutes of which the first starts at the start time. The function computes
  the slots on a \<open>Date\<close> of the current day in local time, so on a day that skips an
  hour it returns other slots: in New York on 8 March 2026 a start at 02:30 gives the
  one slot 03:30 to 04:15, and a start at 01:30 gives a first slot from 01:30 to 03:15.
\<close>

theorem generateSessionBreakdown_skipped_hour:
  "wellFormatted (Some ''02:30'')
   \<and> generateSessionBreakdown (localTZA exDbNewYork) (int (now exDbNewYork)) ''02:30'' ''03:15'' 1
       = [\<lparr>slotNumber = 1, slotStart = ''03:30'', slotEnd = ''04:15''\<rparr>]
   \<and> wellFormatted (Some ''01:30'')
   \<and> generateSessionBreakdown (localTZA exDbNewYork) (int (now exDbNewYork)) ''01:30'' ''03:00'' 2
       = [\<lparr>slotNumber = 1, slotStart = ''01:30'', slotEnd = ''03:15''\<rparr>,
          \<lparr>slotNumber = 2, slotStart = ''03:15'', slotEnd = ''04:00''\<rparr>]"
proof -
  have a: "wellFormatted (Some ''02:30'')" "wellFormatted (Some ''01:30'')" by code_simp+
  have b: "generateSessionBreakdown newYork 1772982000000 ''02:30'' ''03:15'' 1
       = [\<lparr>slotNumber = 1, slotStart = ''03:30'', slotEnd = ''04:15''\<rparr>]"
    by code_simp
  have c: "generateSessionBreakdown newYork 1772982000000 ''01:30'' ''03:00'' 2
       = [\<lparr>slotNumber = 1, slotStart = ''01:30'', slotEnd = ''03:15''\<rparr>,
          \<lparr>slotNumber = 2, slotStart = ''03:15'', slotEnd = ''04:00''\<rparr>]"
    by code_simp
  show ?thesis unfolding newYork_now using a b c by simp
qed

section \<open>Properties of the stored totals\<close>

lemma status_values: "st \<in> set ATTENDANCE_STATUS_values \<longleftrightarrow> st = PRESENT \<or> st = ABSENT"
  by (auto simp add: ATTENDANCE_STATUS_values_def)

lemma present_neq_absent: "PRESENT \<noteq> ABSENT"
  by (simp add: PRESENT_def ABSENT_def)

lemma countSessions_Inr:
  "countSessions sid n ss p a = Inr (p', a')
     \<Longrightarrow> p' + a' = p + a + length ss \<and> statusesValid ss
         \<and> p' = p + countStatus PRESENT ss \<and> a' = a + countStatus ABSENT ss
         \<and> (\<forall>s \<in> set ss. 1 \<le> sessionNumber s \<and> sessionNumber s \<le> n)"
proof (induction ss arbitrary: p a)
  case Nil
  then show ?case by (simp add: statusesValid_def countStatus_def)
next
  case (Cons s ss)
  from Cons.prems have rng: "1 \<le> sessionNumber s" "sessionNumber s \<le> n"
    and st: "status s = PRESENT \<or> status s = ABSENT"
    by (auto simp add: status_values split: if_splits)
  show ?case
  proof (cases "status s = PRESENT")
    case True
    with Cons.prems rng have "countSessions sid n ss (p + 1) a = Inr (p', a')"
      by (simp add: status_values)
    from Cons.IH [OF this] True rng present_neq_absent show ?thesis
      by (simp add: statusesValid_def countStatus_def)
  next
    case False
    with st have ab: "status s = ABSENT" by simp
    with Cons.prems rng False have "countSessions sid n ss p (a + 1) = Inr (p', a')"
      by (simp add: status_values)
    from Cons.IH [OF this] ab rng present_neq_absent show ?thesis
      by (simp add: statusesValid_def countStatus_def)
  qed
qed

lemma validateSessions_Inr:
  assumes "validateSessions sid n ss = Inr (p, a)"
  shows "int (p + a) = n" "int (length ss) = n" "statusesValid ss"
    "p = countStatus PRESENT ss" "a = countStatus ABSENT ss"
    "distinct (map sessionNumber ss)" "\<forall>k. 1 \<le> k \<and> k \<le> n \<longrightarrow> k \<in> sessionNumber ` set ss"
    "\<forall>s \<in> set ss. 1 \<le> sessionNumber s \<and> sessionNumber s \<le> n"
proof -
  from assms have len: "int (length ss) = n"
    by (auto simp add: validateSessions_def split: if_splits)
  from assms len obtain p' a' where c: "countSessions sid n ss 0 0 = Inr (p', a')"
    by (cases "countSessions sid n ss 0 0") (auto simp add: validateSessions_def)
  from assms len c have pa: "p' = p" "a' = a"
    and d: "length (map sessionNumber ss) = length (remdups (map sessionNumber ss))"
    and m: "filter (\<lambda>num. num \<notin> set (map sessionNumber ss)) [1..n] = []"
    by (auto simp add: validateSessions_def Let_def split: if_splits)
  from countSessions_Inr [OF c] pa len
  show "int (p + a) = n" "int (length ss) = n" "statusesValid ss"
    "p = countStatus PRESENT ss" "a = countStatus ABSENT ss"
    "\<forall>s \<in> set ss. 1 \<le> sessionNumber s \<and> sessionNumber s \<le> n"
    by simp_all
  have "remdups (map sessionNumber ss) = map sessionNumber ss"
    by (rule iffD1 [OF length_remdups_eq d [symmetric]])
  then show "distinct (map sessionNumber ss)"
    by (rule iffD1 [OF remdups_id_iff_distinct])
  from m show "\<forall>k. 1 \<le> k \<and> k \<le> n \<longrightarrow> k \<in> sessionNumber ` set ss"
    by (auto simp add: filter_empty_conv)
qed

lemma validateStudentAttendance_Inr:
  assumes "validateStudentAttendance db cs n x = Inr v"
  shows "entryOK n v"
proof -
  from assms obtain p a where vs: "validateSessions (in_studentId x) n (in_sessions x) = Inr (p, a)"
    and v: "v = \<lparr>studentId = in_studentId x, sessions = in_sessions x, totalPresent = p,
                 totalAbsent = a, attendancePercentage = jsPercentage p n\<rparr>"
    by (auto simp add: validateStudentAttendance_def split: option.splits if_splits sum.splits)
  from validateSessions_Inr(1-3) [OF vs] show ?thesis
    by (simp add: entryOK_def v)
qed

lemma validateAttendance_Inr:
  "validateAttendance db cs n xs = Inr vs \<Longrightarrow> list_all (entryOK n) vs"
proof (induction xs arbitrary: vs)
  case Nil
  then show ?case by simp
next
  case (Cons x xs)
  from Cons.prems obtain v vs' where v: "validateStudentAttendance db cs n x = Inr v"
    and r: "validateAttendance db cs n xs = Inr vs'" and e: "vs = v # vs'"
    by (auto split: sum.splits)
  from validateStudentAttendance_Inr [OF v] Cons.IH [OF r] e show ?case by simp
qed

lemma markAttendance_Inr:
  assumes "markAttendance db userId req store = (Inr r, store')"
  shows "store' = store @ [r]" "recordOK r"
proof -
  from assms obtain v t cs d vs where
    v: "validateRequest req = Inr v" and c: "resolveClass db userId v = Inr (t, cs, d)"
    and a: "validateAttendance db cs (vr_numSessions v) (vr_attendance v) = Inr vs"
    and r: "numSessions r = vr_numSessions v" "attendance r = vs"
    and s: "createRecord store r = Inr store'"
    by (auto simp add: markAttendance_def Let_def split: sum.splits prod.splits)
  from s show "store' = store @ [r]"
    by (auto simp add: createRecord_def split: if_splits)
  from validateAttendance_Inr [OF a] r show "recordOK r"
    by (simp add: recordOK_def)
qed

lemma updateFirst_all:
  "list_all Q xs \<Longrightarrow> (\<And>x. Q x \<Longrightarrow> p x \<Longrightarrow> Q (f x)) \<Longrightarrow> list_all Q (updateFirst p f xs)"
  by (induction xs) auto

lemma length_updateFirst: "length (updateFirst p f xs) = length xs"
  by (induction xs) auto

lemma find_Some_set: "find p xs = Some x \<Longrightarrow> x \<in> set xs \<and> p x"
  by (auto simp add: find_Some_iff)

lemma setSessionStatus_shape:
  assumes "st = PRESENT \<or> st = ABSENT"
  shows "length (setSessionStatus num st ss) = length ss"
    and "statusesValid ss \<Longrightarrow> statusesValid (setSessionStatus num st ss)"
  using assms
  by (auto simp add: setSessionStatus_def length_updateFirst statusesValid_def
           intro!: updateFirst_all)

lemma applySessionUpdates_Inr:
  "applySessionUpdates ss us = Inr ss'
     \<Longrightarrow> length ss' = length ss \<and> (statusesValid ss \<longrightarrow> statusesValid ss')"
proof (induction us arbitrary: ss)
  case Nil
  then show ?case by simp
next
  case (Cons u us)
  from Cons.prems have st: "status u = PRESENT \<or> status u = ABSENT"
    and r: "applySessionUpdates (setSessionStatus (sessionNumber u) (status u) ss) us = Inr ss'"
    by (auto simp add: status_values split: if_splits)
  from Cons.IH [OF r] setSessionStatus_shape [OF st] show ?case by simp
qed

lemma calculateStudentTotals_Inr:
  assumes "calculateStudentTotals r sid = Inr r'" and "recordOK r"
  shows "recordOK r'"
proof (cases "find (\<lambda>att. studentId att = sid) (attendance r)")
  case None
  with assms show ?thesis by (simp add: calculateStudentTotals_def)
next
  case (Some e)
  define p where "p = countStatus PRESENT (sessions e)"
  define a where "a = countStatus ABSENT (sessions e)"
  from assms(1) Some have chk: "int (p + a) = numSessions r"
    and r': "r' = r\<lparr>attendance := updateFirst (\<lambda>att. studentId att = sid)
                (\<lambda>att. att\<lparr>totalPresent := p, totalAbsent := a,
                            attendancePercentage :=
                              castNumber (attendancePercentage att)
                                (jsPercentage p (numSessions r))\<rparr>)
                (attendance r)\<rparr>"
    by (auto simp add: calculateStudentTotals_def Let_def p_def a_def split: if_splits)
  have "list_all (entryOK (numSessions r)) (updateFirst (\<lambda>att. studentId att = sid)
                (\<lambda>att. att\<lparr>totalPresent := p, totalAbsent := a,
                            attendancePercentage :=
                              castNumber (attendancePercentage att)
                                (jsPercentage p (numSessions r))\<rparr>)
                (attendance r))"
    using assms(2) chk by (intro updateFirst_all) (simp_all add: recordOK_def entryOK_def)
  then show ?thesis by (simp add: r' recordOK_def)
qed

lemma calculateStudentTotals_fields:
  assumes "calculateStudentTotals r sid = Inr r'"
  shows "numSessions r' = numSessions r"
  using assms
  by (auto simp add: calculateStudentTotals_def Let_def split: option.splits if_splits)

lemma setStudentSessions_OK:
  assumes "recordOK r" and "int (length ss) = numSessions r" and "statusesValid ss"
  shows "recordOK (setStudentSessions sid ss r)"
proof -
  have "list_all (entryOK (numSessions r))
          (updateFirst (\<lambda>att. studentId att = sid) (\<lambda>att. att\<lparr>sessions := ss\<rparr>) (attendance r))"
    using assms by (intro updateFirst_all) (simp_all add: recordOK_def entryOK_def)
  then show ?thesis by (simp add: setStudentSessions_def recordOK_def)
qed

lemma recordOK_audit: "recordOK (updateWithAudit r u t) = recordOK r"
  by (simp add: updateWithAudit_def recordOK_def)

lemma recordOK_entry:
  "recordOK r \<Longrightarrow> find p (attendance r) = Some e \<Longrightarrow> entryOK (numSessions r) e"
  by (auto simp add: recordOK_def list_all_iff dest: find_Some_set)

lemma updateStudentAllSessions_Inr:
  assumes "updateStudentAllSessions r sid sessionsData modifiedBy t = Inr r'" and "recordOK r"
  shows "recordOK r'"
proof -
  from assms(1) obtain e ss r1 where f: "find (\<lambda>att. studentId att = sid) (attendance r) = Some e"
    and u: "applySessionUpdates (sessions e) sessionsData = Inr ss"
    and c: "calculateStudentTotals (setStudentSessions sid ss r) sid = Inr r1"
    and r': "r' = updateWithAudit r1 modifiedBy t"
    by (auto simp add: updateStudentAllSessions_def split: option.splits if_splits sum.splits)
  from recordOK_entry [OF assms(2) f] applySessionUpdates_Inr [OF u]
  have "int (length ss) = numSessions r" "statusesValid ss"
    by (simp_all add: entryOK_def)
  from setStudentSessions_OK [OF assms(2) this] have "recordOK (setStudentSessions sid ss r)" .
  from calculateStudentTotals_Inr [OF c this] show ?thesis
    by (simp add: r' recordOK_audit)
qed

lemma updateAttendance_Inr:
  "updateAttendance r us modifiedBy t = Inr r' \<Longrightarrow> recordOK r \<Longrightarrow> recordOK r'"
proof (induction us arbitrary: r)
  case Nil
  then show ?case by simp
next
  case (Cons u us)
  from Cons.prems(1) obtain r1 where
    a: "updateStudentAllSessions r (in_studentId u) (in_sessions u) modifiedBy t = Inr r1"
    and b: "updateAttendance r1 us modifiedBy t = Inr r'"
    by (auto split: if_splits sum.splits)
  show ?case
    by (rule Cons.IH [OF b updateStudentAllSessions_Inr [OF a Cons.prems(2)]])
qed

lemma applyTimes_fields:
  "attendance (applyTimes db st en r) = attendance r"
  "numSessions (applyTimes db st en r) = numSessions r"
  "isFinalized (applyTimes db st en r) = isFinalized r"
  "lastModifiedBy (applyTimes db st en r) = lastModifiedBy r"
  "recordId (applyTimes db st en r) = recordId r"
  by (simp_all add: applyTimes_def Let_def split: option.splits)

lemma recordOK_applyTimes: "recordOK (applyTimes db st en r) = recordOK r"
  by (simp add: recordOK_def applyTimes_fields)

lemma editAttendanceRecord_Inr:
  assumes "editAttendanceRecord db userId rid patch store = (Inr r', store')"
  obtains t r r1 where "findTeacherByUserId db userId = Some t"
    "find (\<lambda>x. recordId x = rid) store = Some r" "teacherId r = teacher_id t" "\<not> isFinalized r"
    "(case patch_attendance patch of None \<Rightarrow> Inr r
      | Some att \<Rightarrow> updateAttendance r att userId (now db)) = Inr r1"
    "r' = editResult db patch r1"
    "store' = updateFirst (\<lambda>x. recordId x = rid) (\<lambda>x. r') store"
  using assms
  by (auto simp add: editAttendanceRecord_def editResult_def Let_def
           split: option.splits if_splits sum.splits)

lemma recordOK_editResult: "recordOK (editResult db patch r) = recordOK r"
  by (simp add: editResult_def Let_def recordOK_def applyTimes_fields)

lemma editAttendanceRecord_OK:
  assumes "editAttendanceRecord db userId rid patch store = (Inr r', store')"
    and "list_all recordOK store"
  shows "list_all recordOK store'"
proof -
  from assms(1) obtain t r r1 where f: "find (\<lambda>x. recordId x = rid) store = Some r"
    and u: "(case patch_attendance patch of None \<Rightarrow> Inr r
      | Some att \<Rightarrow> updateAttendance r att userId (now db)) = Inr r1"
    and r': "r' = editResult db patch r1"
    and s': "store' = updateFirst (\<lambda>x. recordId x = rid) (\<lambda>x. r') store"
    by (rule editAttendanceRecord_Inr)
  from assms(2) f have "recordOK r"
    by (auto simp add: list_all_iff dest: find_Some_set)
  with u have "recordOK r1"
    by (cases "patch_attendance patch") (auto dest: updateAttendance_Inr)
  then have "recordOK r'" by (simp add: r' recordOK_editResult)
  then show ?thesis unfolding s' by (intro updateFirst_all [OF assms(2)])
qed

lemma updateStudentSession_Inr:
  assumes "updateStudentSession r sid num newStatus modifiedBy t = Inr r'" and "recordOK r"
  shows "recordOK r'"
proof -
  from assms(1) obtain e r1 where st: "newStatus = PRESENT \<or> newStatus = ABSENT"
    and f: "find (\<lambda>att. studentId att = sid) (attendance r) = Some e"
    and c: "calculateStudentTotals
              (setStudentSessions sid (setSessionStatus num newStatus (sessions e)) r) sid = Inr r1"
    and r': "r' = updateWithAudit r1 modifiedBy t"
    by (auto simp add: updateStudentSession_def status_values
             split: option.splits if_splits sum.splits)
  from recordOK_entry [OF assms(2) f] setSessionStatus_shape [OF st, where num = num and ss = "sessions e"]
  have "int (length (setSessionStatus num newStatus (sessions e))) = numSessions r"
    "statusesValid (setSessionStatus num newStatus (sessions e))"
    by (simp_all add: entryOK_def)
  from setStudentSessions_OK [OF assms(2) this]
  have "recordOK (setStudentSessions sid (setSessionStatus num newStatus (sessions e)) r)" .
  from calculateStudentTotals_Inr [OF c this] show ?thesis
    by (simp add: r' recordOK_audit)
qed

lemma countStatus_total:
  "statusesValid ss \<Longrightarrow> countStatus PRESENT ss + countStatus ABSENT ss = length ss"
  using present_neq_absent
  by (induction ss) (auto simp add: statusesValid_def countStatus_def)

lemma countStatus_total_int:
  "statusesValid ss \<Longrightarrow> int (countStatus PRESENT ss) + int (countStatus ABSENT ss) = int (length ss)"
  using countStatus_total [of ss] by linarith

lemma recalculateAllTotals_OK:
  assumes "recordOK r"
  shows "recordOK (recalculateAllTotals r)"
  using assms
  by (auto simp add: recordOK_def recalculateAllTotals_def Let_def list_all_iff entryOK_def
                     countStatus_total_int)

lemma list_all_update: "list_all Q xs \<Longrightarrow> Q x \<Longrightarrow> list_all Q (xs[i := x])"
  by (auto simp add: list_all_iff dest: set_update_subset_insert [THEN subsetD])

lemma reachable_OK: "reachable store \<Longrightarrow> list_all recordOK store"
proof (induction rule: reachable.induct)
  case empty
  then show ?case by simp
next
  case (mark store db userId req r store')
  from markAttendance_Inr [OF mark.hyps(2)] mark.IH show ?case by simp
next
  case (edit store db userId rid patch r store')
  from editAttendanceRecord_OK [OF edit.hyps(2) edit.IH] show ?case .
next
  case (session store i sid num newStatus modifiedBy t r)
  from session.IH session.hyps(2) have "recordOK (store ! i)"
    by (simp add: list_all_length)
  from updateStudentSession_Inr [OF session.hyps(3) this] show ?case
    by (intro list_all_update [OF session.IH])
next
  case (recalculate store i)
  from recalculate.IH recalculate.hyps(2) have "recordOK (store ! i)"
    by (simp add: list_all_length)
  from recalculateAllTotals_OK [OF this] show ?case
    by (intro list_all_update [OF recalculate.IH])
qed

text \<open>
  Claim C1. In every collection that creation and the edit paths can build, every
  student entry of every record has \<open>totalPresent + totalAbsent = numSessions\<close>.
\<close>

theorem totals_consistent:
  assumes "reachable store"
  shows "\<forall>r \<in> set store. \<forall>e \<in> set (attendance r).
           int (totalPresent e + totalAbsent e) = numSessions r"
  using reachable_OK [OF assms]
  by (auto simp add: list_all_iff recordOK_def entryOK_def)


lemma exMark_creates:
  "markAttendance exDb ''U1'' (exMark ''S1'' exSessions) [] = (Inr (exRecord ''S1''), [exRecord ''S1''])"
  by code_simp


section \<open>Properties of the validation of a create call\<close>

lemma httpStatus_session_errors:
  "httpStatus (SessionsWrongCount sid) = BAD_REQUEST"
  "httpStatus (SessionNumberInvalid sid k) = BAD_REQUEST"
  "httpStatus (SessionStatusInvalid sid st) = BAD_REQUEST"
  "httpStatus (SessionNumbersDuplicate sid) = BAD_REQUEST"
  "httpStatus (SessionNumbersMissing sid ks) = BAD_REQUEST"
  "httpStatus (StudentNotFound sid) = BAD_REQUEST"
  "httpStatus (StudentNotEnrolled sid) = BAD_REQUEST"
  "httpStatus (StudentNotInSection sid) = BAD_REQUEST"
  by simp_all

lemma countSessions_Inl:
  "countSessions sid n ss p a = Inl e \<Longrightarrow> httpStatus e = BAD_REQUEST"
  by (induction ss arbitrary: p a) (auto split: if_splits)

lemma validateSessions_Inl:
  "validateSessions sid n ss = Inl e \<Longrightarrow> httpStatus e = BAD_REQUEST"
  by (auto simp add: validateSessions_def Let_def split: if_splits sum.splits prod.splits
           dest: countSessions_Inl)

lemma validateStudentAttendance_Inl:
  "validateStudentAttendance db cs n x = Inl e \<Longrightarrow> httpStatus e = BAD_REQUEST"
  by (auto simp add: validateStudentAttendance_def
           split: option.splits if_splits sum.splits prod.splits dest: validateSessions_Inl)

lemma validateAttendance_Inl:
  "validateAttendance db cs n xs = Inl e \<Longrightarrow> httpStatus e = BAD_REQUEST"
  by (induction xs) (auto split: sum.splits dest: validateStudentAttendance_Inl)

lemma validateSessions_bad:
  assumes "badSessions n ss"
  shows "\<exists>e. validateSessions sid n ss = Inl e"
proof (cases "validateSessions sid n ss")
  case (Inl e)
  then show ?thesis by blast
next
  case (Inr pa)
  obtain p a where "pa = (p, a)" by (cases pa)
  with Inr have v: "validateSessions sid n ss = Inr (p, a)" by simp
  from validateSessions_Inr(6,7) [OF v] assms show ?thesis
    by (auto simp add: badSessions_def)
qed

lemma validateStudentAttendance_bad:
  assumes "badSessions n (in_sessions x)"
  shows "\<exists>e. validateStudentAttendance db cs n x = Inl e"
  using validateSessions_bad [OF assms, of "in_studentId x"]
  by (auto simp add: validateStudentAttendance_def split: option.splits)

lemma validateAttendance_bad:
  assumes "x \<in> set xs" and "isl (validateStudentAttendance db cs n x)"
  shows "\<exists>e. validateAttendance db cs n xs = Inl e"
  using assms
  by (induction xs) (auto split: sum.splits simp add: isl_def)

lemma countSessions_in_range:
  assumes "\<forall>s \<in> set ss. 1 \<le> sessionNumber s \<and> sessionNumber s \<le> n"
  shows "(statusesValid ss \<longrightarrow>
            countSessions sid n ss p a = Inr (p + countStatus PRESENT ss, a + countStatus ABSENT ss))
       \<and> (\<not> statusesValid ss \<longrightarrow>
            (\<exists>st. st \<notin> set ATTENDANCE_STATUS_values
                  \<and> countSessions sid n ss p a = Inl (SessionStatusInvalid sid st)))"
  using assms
proof (induction ss arbitrary: p a)
  case Nil
  then show ?case by (simp add: statusesValid_def countStatus_def)
next
  case (Cons s ss)
  from Cons.prems have rng: "\<not> (sessionNumber s < 1 \<or> sessionNumber s > n)"
    and rest: "\<forall>s \<in> set ss. 1 \<le> sessionNumber s \<and> sessionNumber s \<le> n"
    by auto
  show ?case
  proof (cases "status s \<in> set ATTENDANCE_STATUS_values")
    case False
    with rng show ?thesis
      by (auto simp add: statusesValid_def status_values)
  next
    case True
    then have st: "status s = PRESENT \<or> status s = ABSENT" by (simp add: status_values)
    then have sv: "statusesValid (s # ss) = statusesValid ss" by (simp add: statusesValid_def)
    show ?thesis
    proof (cases "status s = PRESENT")
      case p: True
      from Cons.IH [OF rest, of "p + 1" a] rng True p present_neq_absent show ?thesis
        unfolding sv by (auto simp add: countStatus_def)
    next
      case np: False
      with st have ab: "status s = ABSENT" by simp
      from Cons.IH [OF rest, of p "a + 1"] rng True np ab present_neq_absent show ?thesis
        unfolding sv by (auto simp add: countStatus_def)
    qed
  qed
qed

lemma validateSessions_permutation:
  assumes n: "1 \<le> n" and d: "distinct (map sessionNumber ss)"
    and s: "set (map sessionNumber ss) = {1..n}"
  shows "(statusesValid ss \<longrightarrow>
            validateSessions sid n ss = Inr (countStatus PRESENT ss, countStatus ABSENT ss))
       \<and> (\<not> statusesValid ss \<longrightarrow>
            (\<exists>st. st \<notin> set ATTENDANCE_STATUS_values
                  \<and> validateSessions sid n ss = Inl (SessionStatusInvalid sid st)))"
proof -
  have "length ss = card (set (map sessionNumber ss))"
    using distinct_card [OF d] by simp
  with s n have len: "int (length ss) = n" by simp
  from s have rng: "\<forall>x \<in> set ss. 1 \<le> sessionNumber x \<and> sessionNumber x \<le> n" by auto
  from d have nd: "length (map sessionNumber ss) = length (remdups (map sessionNumber ss))"
    by (simp add: distinct_remdups_id)
  from s have nm: "filter (\<lambda>num. num \<notin> set (map sessionNumber ss)) [1..n] = []"
    by (simp add: filter_empty_conv)
  show ?thesis
  proof (cases "statusesValid ss")
    case True
    with countSessions_in_range [OF rng, of sid 0 0]
    have "countSessions sid n ss 0 0 = Inr (countStatus PRESENT ss, countStatus ABSENT ss)"
      by simp
    with True len nd nm show ?thesis
      by (simp add: validateSessions_def del: length_map set_map)
  next
    case False
    with countSessions_in_range [OF rng, of sid 0 0] obtain st
      where "st \<notin> set ATTENDANCE_STATUS_values"
        "countSessions sid n ss 0 0 = Inl (SessionStatusInvalid sid st)"
      by blast
    with False len show ?thesis
      by (auto simp add: validateSessions_def)
  qed
qed

lemma markAttendance_rejects:
  assumes "validateRequest req = Inr v" and "resolveClass db u v = Inr (t, cs, d)"
    and "validateAttendance db cs (vr_numSessions v) (vr_attendance v) = Inl e"
  shows "markAttendance db u req store = (Inl e, store)"
  using assms by (simp add: markAttendance_def)

text \<open>
  Claim C2. In a create call, a sessions array that repeats a session number or lacks
  a number of \<open>1..numSessions\<close> is refused with status 400, by the checks on the array
  alone, by the validation of the student's entry, and by the call once its own checks
  and lookups have passed (nothing is stored). A sessions array whose numbers are
  exactly a permutation of \<open>1..numSessions\<close> passes the checks on the session numbers:
  with statuses that are all present or absent it is accepted and counted, and
  otherwise the only refusal is that of a status.
\<close>

theorem session_coverage_checked:
  "(badSessions n ss \<longrightarrow>
      (\<exists>e. validateSessions sid n ss = Inl e \<and> httpStatus e = BAD_REQUEST))
   \<and> (badSessions n (in_sessions x) \<longrightarrow>
      (\<exists>e. validateStudentAttendance db cs n x = Inl e \<and> httpStatus e = BAD_REQUEST))
   \<and> (validateRequest req = Inr v \<and> resolveClass db u v = Inr (t, cs, d)
        \<and> x \<in> set (vr_attendance v) \<and> badSessions (vr_numSessions v) (in_sessions x) \<longrightarrow>
      (\<exists>e. markAttendance db u req store = (Inl e, store) \<and> httpStatus e = BAD_REQUEST))
   \<and> (1 \<le> n \<and> distinct (map sessionNumber ps) \<and> set (map sessionNumber ps) = {1..n} \<longrightarrow>
        (statusesValid ps \<longrightarrow>
           validateSessions sid n ps = Inr (countStatus PRESENT ps, countStatus ABSENT ps))
      \<and> (\<not> statusesValid ps \<longrightarrow>
           (\<exists>st. st \<notin> set ATTENDANCE_STATUS_values
                 \<and> validateSessions sid n ps = Inl (SessionStatusInvalid sid st))))"
proof (intro conjI impI)
  assume "badSessions n ss"
  from validateSessions_bad [OF this, of sid] validateSessions_Inl
  show "\<exists>e. validateSessions sid n ss = Inl e \<and> httpStatus e = BAD_REQUEST" by blast
next
  assume "badSessions n (in_sessions x)"
  from validateStudentAttendance_bad [OF this, of db cs] validateStudentAttendance_Inl
  show "\<exists>e. validateStudentAttendance db cs n x = Inl e \<and> httpStatus e = BAD_REQUEST" by blast
next
  assume a: "validateRequest req = Inr v \<and> resolveClass db u v = Inr (t, cs, d)
        \<and> x \<in> set (vr_attendance v) \<and> badSessions (vr_numSessions v) (in_sessions x)"
  then have "isl (validateStudentAttendance db cs (vr_numSessions v) x)"
    using validateStudentAttendance_bad [of "vr_numSessions v" x db cs] by auto
  with a obtain e where e: "validateAttendance db cs (vr_numSessions v) (vr_attendance v) = Inl e"
    using validateAttendance_bad by blast
  from a markAttendance_rejects [OF _ _ e] validateAttendance_Inl [OF e]
  show "\<exists>e. markAttendance db u req store = (Inl e, store) \<and> httpStatus e = BAD_REQUEST"
    by blast
next
  assume a: "1 \<le> n \<and> distinct (map sessionNumber ps) \<and> set (map sessionNumber ps) = {1..n}"
    and "statusesValid ps"
  with validateSessions_permutation [of n ps sid]
  show "validateSessions sid n ps = Inr (countStatus PRESENT ps, countStatus ABSENT ps)"
    by blast
next
  assume a: "1 \<le> n \<and> distinct (map sessionNumber ps) \<and> set (map sessionNumber ps) = {1..n}"
    and "\<not> statusesValid ps"
  with validateSessions_permutation [of n ps sid]
  show "\<exists>st. st \<notin> set ATTENDANCE_STATUS_values
                 \<and> validateSessions sid n ps = Inl (SessionStatusInvalid sid st)"
    by blast
qed

lemma exMark_valid: "validateRequest (exMark sid ss) = Inr (exValid sid ss)"
proof -
  have "timeRegex_test ''09:00''" "timeRegex_test ''10:30''" by code_simp+
  moreover have "toMinutes ''09:00'' = Some 540" "toMinutes ''10:30'' = Some 630" by code_simp+
  moreover have "trim ''09:00'' = ''09:00''" "trim ''10:30'' = ''10:30''" by code_simp+
  ultimately show ?thesis
    by (simp add: validateRequest_def exMark_def exValid_def MAX_SESSIONS_PER_CLASS_def
                  SESSION_DURATION_def)
qed

lemma exValid_resolves:
  "resolveClass exDb ''U1'' (exValid sid ss)
     = Inr (\<lparr>teacher_id = ''T1'', teacher_userId = ''U1''\<rparr>, exSection, 20399)"
proof -
  have "isActive exSection" "cs_teacherId exSection = ''T1''" by code_simp+
  then show ?thesis
    by (simp add: resolveClass_def exDb_def exValid_def)
qed

theorem session_coverage_checked_witness:
  "badSessions 2 dupSessions
   \<and> (\<exists>e. validateSessions ''S1'' 2 dupSessions = Inl e \<and> httpStatus e = BAD_REQUEST)
   \<and> (\<exists>e. markAttendance exDb ''U1'' (exMark ''S1'' dupSessions) [] = (Inl e, [])
           \<and> httpStatus e = BAD_REQUEST)
   \<and> (1::int) \<le> 2 \<and> distinct (map sessionNumber exSessions)
   \<and> set (map sessionNumber exSessions) = {1..2}
   \<and> statusesValid exSessions
   \<and> validateSessions ''S1'' 2 exSessions
        = Inr (countStatus PRESENT exSessions, countStatus ABSENT exSessions)"
proof -
  have b: "badSessions 2 dupSessions" by code_simp
  have m: "\<lparr>in_studentId = ''S1'', in_sessions = dupSessions\<rparr> \<in> set (vr_attendance (exValid ''S1'' dupSessions))"
    and b': "badSessions (vr_numSessions (exValid ''S1'' dupSessions))
               (in_sessions \<lparr>in_studentId = ''S1'', in_sessions = dupSessions\<rparr>)"
    using b by (simp_all add: exValid_def)
  have d: "distinct (map sessionNumber exSessions)" by (simp add: exSessions_def)
  have s: "set (map sessionNumber exSessions) = {1..2}" by (auto simp add: exSessions_def)
  have v: "statusesValid exSessions" by code_simp
  note T = session_coverage_checked [where n = 2 and ss = dupSessions and sid = "''S1''"
      and x = "\<lparr>in_studentId = ''S1'', in_sessions = dupSessions\<rparr>"
      and req = "exMark ''S1'' dupSessions" and v = "exValid ''S1'' dupSessions"
      and db = exDb and u = "''U1''" and t = "\<lparr>teacher_id = ''T1'', teacher_userId = ''U1''\<rparr>"
      and cs = exSection and d = 20399 and store = "[]" and ps = exSessions]
  from T b have c1: "\<exists>e. validateSessions ''S1'' 2 dupSessions = Inl e \<and> httpStatus e = BAD_REQUEST"
    by blast
  from T exMark_valid exValid_resolves m b'
  have c2: "\<exists>e. markAttendance exDb ''U1'' (exMark ''S1'' dupSessions) [] = (Inl e, [])
           \<and> httpStatus e = BAD_REQUEST"
    by blast
  from T d s v have c3: "validateSessions ''S1'' 2 exSessions
        = Inr (countStatus PRESENT exSessions, countStatus ABSENT exSessions)"
    by simp
  from b c1 c2 d s v c3 show ?thesis by simp
qed

lemma markAttendance_store:
  "markAttendance db u req store = (res, store')
     \<Longrightarrow> (case res of Inl e \<Rightarrow> store' = store | Inr r \<Rightarrow> store' = store @ [r])"
  by (auto simp add: markAttendance_def Let_def createRecord_def
           split: sum.splits prod.splits if_splits)

lemma validateSessions_bad_status:
  assumes "s \<in> set ss" and "status s \<notin> set ATTENDANCE_STATUS_values"
  shows "isl (validateSessions sid n ss)"
proof (cases "validateSessions sid n ss")
  case (Inl e)
  then show ?thesis by simp
next
  case (Inr pa)
  obtain p a where "pa = (p, a)" by (cases pa)
  with Inr have "validateSessions sid n ss = Inr (p, a)" by simp
  from validateSessions_Inr(3) [OF this] assms show ?thesis
    by (auto simp add: statusesValid_def list_all_iff status_values)
qed

lemma entryInvalid_rejected:
  assumes "entryInvalid db cs n x"
  shows "isl (validateStudentAttendance db cs n x)"
proof (cases "validateStudentAttendance db cs n x")
  case (Inl e)
  then show ?thesis by simp
next
  case (Inr v)
  then obtain st p a where f: "findStudentById db (in_studentId x) = Some st"
    and e: "list_ex (\<lambda>enrollment. enrollment = subject_id (cs_subject cs)) (enrolledSubjects st)"
    and r: "list_ex (\<lambda>sid. roster_studentId sid = in_studentId x) (students cs)"
    and vs: "validateSessions (in_studentId x) n (in_sessions x) = Inr (p, a)"
    by (auto simp add: validateStudentAttendance_def split: option.splits if_splits sum.splits)
  from e have e': "subject_id (cs_subject cs) \<in> set (enrolledSubjects st)"
    by (auto simp add: list_ex_iff)
  from r have r': "in_studentId x \<in> set (map roster_studentId (students cs))"
    by (force simp add: list_ex_iff)
  from validateSessions_Inr(2,3,6,7,8) [OF vs]
  have "int (length (in_sessions x)) = n" "\<not> badSessions n (in_sessions x)"
    "\<not> list_ex (\<lambda>s. sessionNumber s < 1 \<or> n < sessionNumber s) (in_sessions x)"
    "\<not> list_ex (\<lambda>s. status s \<notin> set ATTENDANCE_STATUS_values) (in_sessions x)"
    by (auto simp add: badSessions_def list_ex_iff statusesValid_def list_all_iff status_values)
  with assms f e' r' show ?thesis
    by (simp add: entryInvalid_def)
qed

text \<open>
  Claim C4. Creation is all or nothing. Whatever a call returns, an error leaves the
  collection as it was and a success appends exactly the new record. A call whose own
  checks and lookups pass and in which the entry of any one student fails its
  validation returns an error and stores nothing, and so does a call that fails one of
  its own checks or lookups.
\<close>

theorem creation_all_or_nothing:
  "(markAttendance db u req store = (res, store') \<longrightarrow>
      (case res of Inl e \<Rightarrow> store' = store | Inr r \<Rightarrow> store' = store @ [r]))
   \<and> (validateRequest req = Inr v \<and> resolveClass db u v = Inr (t, cs, d)
        \<and> x \<in> set (vr_attendance v)
        \<and> (entryInvalid db cs (vr_numSessions v) x
            \<or> isl (validateStudentAttendance db cs (vr_numSessions v) x)) \<longrightarrow>
      (\<exists>e. markAttendance db u req store = (Inl e, store)))
   \<and> (validateRequest req = Inl e \<longrightarrow> markAttendance db u req store = (Inl e, store))
   \<and> (validateRequest req = Inr v \<and> resolveClass db u v = Inl e \<longrightarrow>
        markAttendance db u req store = (Inl e, store))"
proof (intro conjI impI)
  assume "markAttendance db u req store = (res, store')"
  then show "case res of Inl e \<Rightarrow> store' = store | Inr r \<Rightarrow> store' = store @ [r]"
    by (rule markAttendance_store)
next
  assume a: "validateRequest req = Inr v \<and> resolveClass db u v = Inr (t, cs, d)
        \<and> x \<in> set (vr_attendance v)
        \<and> (entryInvalid db cs (vr_numSessions v) x
            \<or> isl (validateStudentAttendance db cs (vr_numSessions v) x))"
  then have "isl (validateStudentAttendance db cs (vr_numSessions v) x)"
    using entryInvalid_rejected by blast
  with a obtain e where "validateAttendance db cs (vr_numSessions v) (vr_attendance v) = Inl e"
    using validateAttendance_bad by blast
  with a markAttendance_rejects show "\<exists>e. markAttendance db u req store = (Inl e, store)"
    by blast
next
  assume "validateRequest req = Inl e"
  then show "markAttendance db u req store = (Inl e, store)"
    by (simp add: markAttendance_def)
next
  assume "validateRequest req = Inr v \<and> resolveClass db u v = Inl e"
  then show "markAttendance db u req store = (Inl e, store)"
    by (simp add: markAttendance_def)
qed

theorem creation_all_or_nothing_witness:
  "validateRequest (exMark ''S9'' exSessions) = Inr (exValid ''S9'' exSessions)
   \<and> resolveClass exDb ''U1'' (exValid ''S9'' exSessions)
        = Inr (\<lparr>teacher_id = ''T1'', teacher_userId = ''U1''\<rparr>, exSection, 20399)
   \<and> \<lparr>in_studentId = ''S9'', in_sessions = exSessions\<rparr>
        \<in> set (vr_attendance (exValid ''S9'' exSessions))
   \<and> entryInvalid exDb exSection (vr_numSessions (exValid ''S9'' exSessions))
        \<lparr>in_studentId = ''S9'', in_sessions = exSessions\<rparr>
   \<and> (\<exists>e. markAttendance exDb ''U1'' (exMark ''S9'' exSessions) [exRecord ''S1'']
            = (Inl e, [exRecord ''S1'']))"
proof -
  have m: "\<lparr>in_studentId = ''S9'', in_sessions = exSessions\<rparr>
        \<in> set (vr_attendance (exValid ''S9'' exSessions))"
    by (simp add: exValid_def)
  have i: "entryInvalid exDb exSection (vr_numSessions (exValid ''S9'' exSessions))
        \<lparr>in_studentId = ''S9'', in_sessions = exSessions\<rparr>"
    by (simp add: entryInvalid_def exDb_def)
  note T = creation_all_or_nothing [where req = "exMark ''S9'' exSessions"
      and v = "exValid ''S9'' exSessions" and db = exDb and u = "''U1''"
      and t = "\<lparr>teacher_id = ''T1'', teacher_userId = ''U1''\<rparr>" and cs = exSection
      and d = 20399 and x = "\<lparr>in_studentId = ''S9'', in_sessions = exSessions\<rparr>"
      and store = "[exRecord ''S1'']"]
  from T exMark_valid [of "''S9''" exSessions] exValid_resolves [of "''S9''" exSessions] m i
  have "\<exists>e. markAttendance exDb ''U1'' (exMark ''S9'' exSessions) [exRecord ''S1'']
            = (Inl e, [exRecord ''S1''])"
    by blast
  with exMark_valid [of "''S9''" exSessions] exValid_resolves [of "''S9''" exSessions] m i
  show ?thesis by blast
qed

lemma find_exId: "find (\<lambda>x. recordId x = exId) [exRecord sid] = Some (exRecord sid)"
  "find (\<lambda>x. recordId x = exId) [exFinal] = Some exFinal"
  by (simp_all add: exId_def exRecord_def exFinal_def)

section \<open>Properties of an edit\<close>

text \<open>
  Claim C3. An edit of a finalized record, with any patch (also one that finalizes
  again), is refused and leaves the collection, and so every field of the record, as
  it was. The record's teacher is answered with the error for a finalized record (400).
  As for every edit, the handler first looks for the caller's teacher profile and
  compares it with the record's teacher: a caller without a profile is answered 404 and
  a teacher who does not own the record 403, before the lock is looked at.
\<close>

theorem edit_finalized_refused:
  assumes "find (\<lambda>x. recordId x = rid) store = Some r" and "isFinalized r"
  shows "(\<forall>t. findTeacherByUserId db u = Some t \<and> teacherId r = teacher_id t \<longrightarrow>
              editAttendanceRecord db u rid patch store = (Inl RecordFinalized, store))
       \<and> httpStatus RecordFinalized = BAD_REQUEST
       \<and> (findTeacherByUserId db u = None \<longrightarrow>
              editAttendanceRecord db u rid patch store = (Inl TeacherProfileNotFound, store))
       \<and> httpStatus TeacherProfileNotFound = NOT_FOUND
       \<and> (\<forall>t. findTeacherByUserId db u = Some t \<and> teacherId r \<noteq> teacher_id t \<longrightarrow>
              editAttendanceRecord db u rid patch store = (Inl NotRecordOwner, store))
       \<and> httpStatus NotRecordOwner = FORBIDDEN
       \<and> snd (editAttendanceRecord db u rid patch store) = store
       \<and> find (\<lambda>x. recordId x = rid) (snd (editAttendanceRecord db u rid patch store)) = Some r"
proof -
  have a: "editAttendanceRecord db u rid patch store = (Inl RecordFinalized, store)"
    if "findTeacherByUserId db u = Some t" "teacherId r = teacher_id t" for t
    using that assms by (simp add: editAttendanceRecord_def Let_def)
  have b: "editAttendanceRecord db u rid patch store = (Inl TeacherProfileNotFound, store)"
    if "findTeacherByUserId db u = None"
    using that by (simp add: editAttendanceRecord_def Let_def)
  have c: "editAttendanceRecord db u rid patch store = (Inl NotRecordOwner, store)"
    if "findTeacherByUserId db u = Some t" "teacherId r \<noteq> teacher_id t" for t
    using that assms by (simp add: editAttendanceRecord_def Let_def)
  have s: "snd (editAttendanceRecord db u rid patch store) = store"
  proof (cases "findTeacherByUserId db u")
    case None
    then show ?thesis by (simp add: b)
  next
    case (Some t)
    then show ?thesis
      by (cases "teacherId r = teacher_id t") (simp_all add: a c)
  qed
  from a b c s assms(1) show ?thesis by simp
qed

theorem edit_finalized_refused_witness:
  "find (\<lambda>x. recordId x = exId) [exFinal] = Some exFinal \<and> isFinalized exFinal
   \<and> findTeacherByUserId exDb ''U1'' = Some \<lparr>teacher_id = ''T1'', teacher_userId = ''U1''\<rparr>
   \<and> teacherId exFinal = teacher_id \<lparr>teacher_id = ''T1'', teacher_userId = ''U1''\<rparr>
   \<and> editAttendanceRecord exDb ''U1'' exId (noPatch\<lparr>patch_isFinalized := Some True\<rparr>) [exFinal]
        = (Inl RecordFinalized, [exFinal])
   \<and> findTeacherByUserId exDb ''U2'' = Some \<lparr>teacher_id = ''T2'', teacher_userId = ''U2''\<rparr>
   \<and> teacherId exFinal \<noteq> teacher_id \<lparr>teacher_id = ''T2'', teacher_userId = ''U2''\<rparr>
   \<and> editAttendanceRecord exDb ''U2'' exId exTimes [exFinal] = (Inl NotRecordOwner, [exFinal])
   \<and> findTeacherByUserId exDb ''U9'' = None
   \<and> editAttendanceRecord exDb ''U9'' exId exRemark [exFinal] = (Inl TeacherProfileNotFound, [exFinal])"
proof -
  have f: "isFinalized exFinal" by (simp add: exFinal_def)
  have t: "findTeacherByUserId exDb ''U1'' = Some \<lparr>teacher_id = ''T1'', teacher_userId = ''U1''\<rparr>"
    "findTeacherByUserId exDb ''U2'' = Some \<lparr>teacher_id = ''T2'', teacher_userId = ''U2''\<rparr>"
    "findTeacherByUserId exDb ''U9'' = None"
    by (simp_all add: exDb_def)
  have o: "teacherId exFinal = teacher_id \<lparr>teacher_id = ''T1'', teacher_userId = ''U1''\<rparr>"
    "teacherId exFinal \<noteq> teacher_id \<lparr>teacher_id = ''T2'', teacher_userId = ''U2''\<rparr>"
    by (simp_all add: exFinal_def exRecord_def)
  from edit_finalized_refused [OF find_exId(2) f, of exDb "''U1''"
      "noPatch\<lparr>patch_isFinalized := Some True\<rparr>"] t(1) o(1)
  have 1: "editAttendanceRecord exDb ''U1'' exId (noPatch\<lparr>patch_isFinalized := Some True\<rparr>) [exFinal]
        = (Inl RecordFinalized, [exFinal])"
    by blast
  from edit_finalized_refused [OF find_exId(2) f, of exDb "''U2''" exTimes] t(2) o(2)
  have 2: "editAttendanceRecord exDb ''U2'' exId exTimes [exFinal] = (Inl NotRecordOwner, [exFinal])"
    by blast
  from edit_finalized_refused [OF find_exId(2) f, of exDb "''U9''" exRemark] t(3)
  have 3: "editAttendanceRecord exDb ''U9'' exId exRemark [exFinal] = (Inl TeacherProfileNotFound, [exFinal])"
    by blast
  from find_exId(2) f t o 1 2 3 show ?thesis by blast
qed

text \<open>
  Claim C8 at a failing input. Student \<open>S2\<close> was removed from the section, so the roster
  keeps the entry with status \<open>withdrawn\<close> and \<open>getActiveStudents\<close> leaves it out; the
  roster check of \<open>markAttendance\<close> looks for the id alone, and the call creates a record
  with an entry for \<open>S2\<close>. Student \<open>S3\<close>, who has no roster entry, is refused.
\<close>

theorem withdrawn_student_accepted:
  "map (\<lambda>s. (roster_studentId s, roster_status s)) (students exSection)
     = [(''S1'', ''active''), (''S2'', ''withdrawn'')]
   \<and> map roster_studentId (getActiveStudents exSection) = [''S1'']
   \<and> markAttendance exDb ''U1'' (exMark ''S2'' exSessions) []
       = (Inr (exRecord ''S2''), [exRecord ''S2''])
   \<and> markAttendance exDb ''U1'' (exMark ''S3'' exSessions) []
       = (Inl (StudentNotInSection ''S3''), [])"
  by code_simp

lemma exRemark_edits:
  "editAttendanceRecord exDb ''U1'' exId exRemark [exRecord ''S1''] = (Inr exRemarked, [exRemarked])"
  by code_simp

text \<open>
  Claim C9 at a failing input. On a record that was never edited, a patch that only
  finalizes and a patch that only moves the start time are both accepted and stored
  with \<open>lastModifiedAt\<close> set and \<open>lastModifiedBy\<close> still unset; a patch of the attendance
  sets both.
\<close>

theorem finalize_leaves_lastModifiedBy:
  "lastModifiedBy (exRecord ''S1'') = None
   \<and> editAttendanceRecord exDb ''U1'' exId exFinalize [exRecord ''S1'']
       = (Inr ((exRecord ''S1'')\<lparr>isFinalized := True, lastModifiedAt := Some 123\<rparr>),
          [(exRecord ''S1'')\<lparr>isFinalized := True, lastModifiedAt := Some 123\<rparr>])
   \<and> lastModifiedBy ((exRecord ''S1'')\<lparr>isFinalized := True, lastModifiedAt := Some 123\<rparr>) = None
   \<and> editAttendanceRecord exDb ''U1'' exId (noPatch\<lparr>patch_startTime := Some ''10:00''\<rparr>)
        [exRecord ''S1'']
       = (Inr ((exRecord ''S1'')\<lparr>startTime := ''10:00'',
                 sessionBreakdown := [\<lparr>slotNumber = 1, slotStart = ''10:00'', slotEnd = ''10:45''\<rparr>,
                                      \<lparr>slotNumber = 2, slotStart = ''10:45'', slotEnd = ''11:30''\<rparr>],
                 lastModifiedAt := Some 123\<rparr>),
          [(exRecord ''S1'')\<lparr>startTime := ''10:00'',
                 sessionBreakdown := [\<lparr>slotNumber = 1, slotStart = ''10:00'', slotEnd = ''10:45''\<rparr>,
                                      \<lparr>slotNumber = 2, slotStart = ''10:45'', slotEnd = ''11:30''\<rparr>],
                 lastModifiedAt := Some 123\<rparr>])
   \<and> editAttendanceRecord exDb ''U1'' exId exRemark [exRecord ''S1''] = (Inr exRemarked, [exRemarked])
   \<and> lastModifiedBy exRemarked = Some ''U1'' \<and> lastModifiedAt exRemarked = Some 123"
  by code_simp

lemma calculateStudentTotals_keeps:
  "calculateStudentTotals r sid = Inr r' \<Longrightarrow> r' = r\<lparr>attendance := attendance r'\<rparr>"
  by (auto simp add: calculateStudentTotals_def Let_def split: option.splits if_splits)

lemma updateStudentAllSessions_keeps:
  assumes "updateStudentAllSessions r sid sd by t = Inr r'"
  shows "startTime r' = startTime r \<and> endTime r' = endTime r \<and> numSessions r' = numSessions r
       \<and> recordId r' = recordId r \<and> isFinalized r' = isFinalized r"
proof -
  from assms obtain ss r1 where
    c: "calculateStudentTotals (setStudentSessions sid ss r) sid = Inr r1"
    and r': "r' = updateWithAudit r1 by t"
    by (auto simp add: updateStudentAllSessions_def split: option.splits if_splits sum.splits)
  from calculateStudentTotals_keeps [OF c]
  have "r1 = (setStudentSessions sid ss r)\<lparr>attendance := attendance r1\<rparr>" .
  then have "startTime r1 = startTime r \<and> endTime r1 = endTime r \<and> numSessions r1 = numSessions r
       \<and> recordId r1 = recordId r \<and> isFinalized r1 = isFinalized r"
    by (metis (no_types, lifting) attendanceRecord.select_convs(1,6,7,9,16)
          attendanceRecord.surjective attendanceRecord.update_convs(11) setStudentSessions_def)
  then show ?thesis by (simp add: r' updateWithAudit_def)
qed

lemma updateAttendance_keeps:
  "updateAttendance r us by t = Inr r'
     \<Longrightarrow> startTime r' = startTime r \<and> endTime r' = endTime r \<and> numSessions r' = numSessions r
       \<and> recordId r' = recordId r \<and> isFinalized r' = isFinalized r"
proof (induction us arbitrary: r)
  case Nil
  then show ?case by simp
next
  case (Cons x us)
  from Cons.prems obtain r1 where
    a: "updateStudentAllSessions r (in_studentId x) (in_sessions x) by t = Inr r1"
    and b: "updateAttendance r1 us by t = Inr r'"
    by (auto split: if_splits sum.splits)
  from updateStudentAllSessions_keeps [OF a] Cons.IH [OF b] show ?case by simp
qed

lemma attendanceStep_keeps:
  "attendanceStep db u patch r = Inr r1
     \<Longrightarrow> startTime r1 = startTime r \<and> endTime r1 = endTime r \<and> numSessions r1 = numSessions r"
  by (cases "patch_attendance patch") (auto simp add: attendanceStep_def dest: updateAttendance_keeps)

lemma editResult_times:
  "startTime (editResult db patch r1) = (case patchStart patch of Some s \<Rightarrow> s | None \<Rightarrow> startTime r1)"
  "endTime (editResult db patch r1) = (case patchEnd patch of Some e \<Rightarrow> e | None \<Rightarrow> endTime r1)"
  "numSessions (editResult db patch r1) = numSessions r1"
  "patchStart patch \<noteq> None \<or> patchEnd patch \<noteq> None \<Longrightarrow>
     sessionBreakdown (editResult db patch r1)
       = generateSessionBreakdown (localTZA db) (int (now db))
           (startTime (editResult db patch r1)) (endTime (editResult db patch r1))
           (numSessions r1)"
  by (auto simp add: editResult_def applyTimes_def Let_def patchStart_def patchEnd_def
           split: option.splits)

lemma generateSessionBreakdown_ignores_end:
  "generateSessionBreakdown tz clock s e n = generateSessionBreakdown tz clock s e' n"
  by (simp add: generateSessionBreakdown_def)

lemma toMinutes_Some:
  "toMinutes s = Some m \<Longrightarrow> \<exists>h mi. parseHourMinute s = Some (h, mi) \<and> m = int h * 60 + int mi"
  by (auto simp add: toMinutes_def split: option.splits)

lemma editAttendanceRecord_eq:
  assumes "findTeacherByUserId db u = Some t" and "find (\<lambda>x. recordId x = rid) store = Some r"
    and "teacherId r = teacher_id t" and "\<not> isFinalized r"
  shows "editAttendanceRecord db u rid patch store =
     (if \<not> wellFormatted (patchStart patch) then (Inl StartTimeFormat, store)
      else if \<not> wellFormatted (patchEnd patch) then (Inl EndTimeFormat, store)
      else (case attendanceStep db u patch r of
              Inl e \<Rightarrow> (Inl (UpdateAttendanceFailed e), store)
            | Inr r1 \<Rightarrow> (Inr (editResult db patch r1),
                         updateFirst (\<lambda>x. recordId x = rid) (\<lambda>x. editResult db patch r1) store)))"
  using assms
  by (auto simp add: editAttendanceRecord_def Let_def wellFormatted_def patchStart_def
        patchEnd_def attendanceStep_def editResult_def split: option.splits sum.splits)

text \<open>
  For an edit of an unfinalized record by its teacher, whose attendance update (if the
  patch has one) succeeds: a start time that is given and does not match the \<open>HH:MM\<close>
  pattern is refused, then an end time that is given and does not match; every other
  patch is accepted, whatever the order of the two times and the span between them.
  The stored start and end are the given ones, or the old ones where the patch gives
  none, and when the patch gives either time the breakdown is regenerated from the
  stored start time and the number of sessions alone: the same for every end time,
  and, for a start time that reads as minute \<open>s\<close>, the \<open>numSessions\<close> slots of 45 minutes
  from \<open>s\<close> on when the current day skips none of their boundaries.
\<close>

lemma edit_times_format_only:
  assumes "findTeacherByUserId db u = Some t" and "find (\<lambda>x. recordId x = rid) store = Some r"
    and "teacherId r = teacher_id t" and "\<not> isFinalized r"
    and "attendanceStep db u patch r = Inr r1"
  shows "(\<not> wellFormatted (patchStart patch) \<longrightarrow>
            editAttendanceRecord db u rid patch store = (Inl StartTimeFormat, store))
       \<and> (wellFormatted (patchStart patch) \<and> \<not> wellFormatted (patchEnd patch) \<longrightarrow>
            editAttendanceRecord db u rid patch store = (Inl EndTimeFormat, store))
       \<and> (wellFormatted (patchStart patch) \<and> wellFormatted (patchEnd patch) \<longrightarrow>
            (\<exists>r'. editAttendanceRecord db u rid patch store
                     = (Inr r', updateFirst (\<lambda>x. recordId x = rid) (\<lambda>x. r') store)
                \<and> startTime r' = (case patchStart patch of Some s \<Rightarrow> s | None \<Rightarrow> startTime r)
                \<and> endTime r' = (case patchEnd patch of Some e \<Rightarrow> e | None \<Rightarrow> endTime r)
                \<and> numSessions r' = numSessions r
                \<and> (patchStart patch \<noteq> None \<or> patchEnd patch \<noteq> None \<longrightarrow>
                     (\<forall>e. sessionBreakdown r'
                            = generateSessionBreakdown (localTZA db) (int (now db))
                                (startTime r') e (numSessions r))
                   \<and> (\<forall>s. toMinutes (startTime r') = Some s
                            \<and> boundariesExist (localTZA db) (int (now db)) s (numSessions r) \<longrightarrow>
                          sessionBreakdown r' = map (slotAt 1 s) [1..numSessions r]))))"
proof (intro conjI impI)
  assume "\<not> wellFormatted (patchStart patch)"
  then show "editAttendanceRecord db u rid patch store = (Inl StartTimeFormat, store)"
    by (simp add: editAttendanceRecord_eq [OF assms(1-4)])
next
  assume "wellFormatted (patchStart patch) \<and> \<not> wellFormatted (patchEnd patch)"
  then show "editAttendanceRecord db u rid patch store = (Inl EndTimeFormat, store)"
    by (simp add: editAttendanceRecord_eq [OF assms(1-4)])
next
  assume w: "wellFormatted (patchStart patch) \<and> wellFormatted (patchEnd patch)"
  define r' where "r' = editResult db patch r1"
  from attendanceStep_keeps [OF assms(5)]
  have k: "startTime r1 = startTime r" "endTime r1 = endTime r" "numSessions r1 = numSessions r"
    by simp_all
  have e: "editAttendanceRecord db u rid patch store
             = (Inr r', updateFirst (\<lambda>x. recordId x = rid) (\<lambda>x. r') store)"
    using w assms(5) by (simp add: editAttendanceRecord_eq [OF assms(1-4)] r'_def)
  have t: "startTime r' = (case patchStart patch of Some s \<Rightarrow> s | None \<Rightarrow> startTime r)"
    "endTime r' = (case patchEnd patch of Some e \<Rightarrow> e | None \<Rightarrow> endTime r)"
    "numSessions r' = numSessions r"
    by (simp_all add: r'_def editResult_times k split: option.splits)
  have b: "(\<forall>e. sessionBreakdown r'
                = generateSessionBreakdown (localTZA db) (int (now db))
                    (startTime r') e (numSessions r))
         \<and> (\<forall>s. toMinutes (startTime r') = Some s
                  \<and> boundariesExist (localTZA db) (int (now db)) s (numSessions r) \<longrightarrow>
                sessionBreakdown r' = map (slotAt 1 s) [1..numSessions r])"
    if p: "patchStart patch \<noteq> None \<or> patchEnd patch \<noteq> None"
  proof (intro conjI allI impI)
    fix e
    from editResult_times(4) [OF p, of db r1]
    show g: "sessionBreakdown r' = generateSessionBreakdown (localTZA db) (int (now db))
                                     (startTime r') e (numSessions r)"
      unfolding r'_def k
      using generateSessionBreakdown_ignores_end [of "localTZA db" "int (now db)"] by simp
  next
    fix s assume s: "toMinutes (startTime r') = Some s
                  \<and> boundariesExist (localTZA db) (int (now db)) s (numSessions r)"
    then obtain h mi where "parseHourMinute (startTime r') = Some (h, mi)" "s = int h * 60 + int mi"
      using toMinutes_Some by blast
    with editResult_times(4) [OF p, of db r1] s
    show "sessionBreakdown r' = map (slotAt 1 s) [1..numSessions r]"
      unfolding r'_def k by (simp add: generateSessionBreakdown_map)
  qed
  from e t b show "\<exists>r'. editAttendanceRecord db u rid patch store
                     = (Inr r', updateFirst (\<lambda>x. recordId x = rid) (\<lambda>x. r') store)
                \<and> startTime r' = (case patchStart patch of Some s \<Rightarrow> s | None \<Rightarrow> startTime r)
                \<and> endTime r' = (case patchEnd patch of Some e \<Rightarrow> e | None \<Rightarrow> endTime r)
                \<and> numSessions r' = numSessions r
                \<and> (patchStart patch \<noteq> None \<or> patchEnd patch \<noteq> None \<longrightarrow>
                     (\<forall>e. sessionBreakdown r'
                            = generateSessionBreakdown (localTZA db) (int (now db))
                                (startTime r') e (numSessions r))
                   \<and> (\<forall>s. toMinutes (startTime r') = Some s
                            \<and> boundariesExist (localTZA db) (int (now db)) s (numSessions r) \<longrightarrow>
                          sessionBreakdown r' = map (slotAt 1 s) [1..numSessions r]))"
    by blast
qed

lemma edit_times_format_only_example:
  "findTeacherByUserId exDb ''U1'' = Some \<lparr>teacher_id = ''T1'', teacher_userId = ''U1''\<rparr>
   \<and> find (\<lambda>x. recordId x = exId) [exRecord ''S1''] = Some (exRecord ''S1'')
   \<and> teacherId (exRecord ''S1'') = teacher_id \<lparr>teacher_id = ''T1'', teacher_userId = ''U1''\<rparr>
   \<and> \<not> isFinalized (exRecord ''S1'')
   \<and> attendanceStep exDb ''U1'' exTimes (exRecord ''S1'') = Inr (exRecord ''S1'')
   \<and> wellFormatted (patchStart exTimes) \<and> wellFormatted (patchEnd exTimes)
   \<and> (\<exists>r'. editAttendanceRecord exDb ''U1'' exId exTimes [exRecord ''S1'']
               = (Inr r', updateFirst (\<lambda>x. recordId x = exId) (\<lambda>x. r') [exRecord ''S1''])
          \<and> startTime r' = ''10:00'' \<and> endTime r' = ''09:00'' \<and> numSessions r' = 2
          \<and> sessionBreakdown r' = map (slotAt 1 600) [1..2])"
proof -
  have t: "findTeacherByUserId exDb ''U1'' = Some \<lparr>teacher_id = ''T1'', teacher_userId = ''U1''\<rparr>"
    by (simp add: exDb_def)
  have o: "teacherId (exRecord ''S1'') = teacher_id \<lparr>teacher_id = ''T1'', teacher_userId = ''U1''\<rparr>"
    by (simp add: exRecord_def)
  have f: "\<not> isFinalized (exRecord ''S1'')" by (simp add: exRecord_def)
  have a: "attendanceStep exDb ''U1'' exTimes (exRecord ''S1'') = Inr (exRecord ''S1'')"
    by (simp add: attendanceStep_def exTimes_def noPatch_def)
  have ps: "patchStart exTimes = Some ''10:00''" and pe: "patchEnd exTimes = Some ''09:00''"
    by code_simp+
  have w: "wellFormatted (patchStart exTimes)" "wellFormatted (patchEnd exTimes)"
    by code_simp+
  have m: "toMinutes ''10:00'' = Some 600" by code_simp
  have n: "numSessions (exRecord ''S1'') = 2" by (simp add: exRecord_def)
  have x: "boundariesExist (localTZA exDb) (int (now exDb)) 600 2" by code_simp
  from edit_times_format_only [OF t find_exId(1) o f a] w
  obtain r' where r': "editAttendanceRecord exDb ''U1'' exId exTimes [exRecord ''S1'']
               = (Inr r', updateFirst (\<lambda>x. recordId x = exId) (\<lambda>x. r') [exRecord ''S1''])"
      "startTime r' = (case patchStart exTimes of Some s \<Rightarrow> s | None \<Rightarrow> startTime (exRecord ''S1''))"
      "endTime r' = (case patchEnd exTimes of Some e \<Rightarrow> e | None \<Rightarrow> endTime (exRecord ''S1''))"
      "numSessions r' = numSessions (exRecord ''S1'')"
      "patchStart exTimes \<noteq> None \<or> patchEnd exTimes \<noteq> None \<longrightarrow>
         (\<forall>s. toMinutes (startTime r') = Some s
                \<and> boundariesExist (localTZA exDb) (int (now exDb)) s (numSessions (exRecord ''S1'')) \<longrightarrow>
                sessionBreakdown r' = map (slotAt 1 s) [1..numSessions (exRecord ''S1'')])"
    by blast
  from r'(2-5) have "startTime r' = ''10:00''" "endTime r' = ''09:00''" "numSessions r' = 2"
    "sessionBreakdown r' = map (slotAt 1 600) [1..2]"
    by (simp_all add: ps pe m n x)
  with r'(1) t find_exId(1) o f a w show ?thesis by blast
qed

text \<open>
  Claim C10 at a failing input. The claim is that an edit of the times checks their
  format only and regenerates the breakdown as \<open>numSessions\<close> consecutive 45-minute
  slots from the stored start time. The first part holds; the breakdown is computed by
  \<open>generateSessionBreakdown\<close> on the current day in local time, and on a day that
  skips an hour the stored slots are others: in New York on 8 March 2026 an edit to
  the start time 02:30 is accepted and stores the slots 03:30 to 04:15 and 04:15 to
  05:00 beside the start time 02:30, where the slots on the clock are 02:30 to 03:15
  and 03:15 to 04:00.
\<close>

theorem edit_times_skipped_hour:
  "editAttendanceRecord exDbNewYork ''U1'' exId exEarly [exRecord ''S1'']
     = (Inr ((exRecord ''S1'')\<lparr>startTime := ''02:30'', endTime := ''04:00'',
               sessionBreakdown := [\<lparr>slotNumber = 1, slotStart = ''03:30'', slotEnd = ''04:15''\<rparr>,
                                    \<lparr>slotNumber = 2, slotStart = ''04:15'', slotEnd = ''05:00''\<rparr>],
               lastModifiedAt := Some 1772982000000\<rparr>),
        [(exRecord ''S1'')\<lparr>startTime := ''02:30'', endTime := ''04:00'',
               sessionBreakdown := [\<lparr>slotNumber = 1, slotStart = ''03:30'', slotEnd = ''04:15''\<rparr>,
                                    \<lparr>slotNumber = 2, slotStart = ''04:15'', slotEnd = ''05:00''\<rparr>],
               lastModifiedAt := Some 1772982000000\<rparr>])
   \<and> toMinutes ''02:30'' = Some 150
   \<and> map (slotAt 1 150) [1..2]
       = [\<lparr>slotNumber = 1, slotStart = ''02:30'', slotEnd = ''03:15''\<rparr>,
          \<lparr>slotNumber = 2, slotStart = ''03:15'', slotEnd = ''04:00''\<rparr>]"
proof -
  have t: "findTeacherByUserId exDbNewYork ''U1''
             = Some \<lparr>teacher_id = ''T1'', teacher_userId = ''U1''\<rparr>"
    by (simp add: exDbNewYork_def exDb_def)
  have o: "teacherId (exRecord ''S1'') = teacher_id \<lparr>teacher_id = ''T1'', teacher_userId = ''U1''\<rparr>"
    by (simp add: exRecord_def)
  have f: "\<not> isFinalized (exRecord ''S1'')" by (simp add: exRecord_def)
  have ps: "patchStart exEarly = Some ''02:30''" and pe: "patchEnd exEarly = Some ''04:00''"
    by code_simp+
  have w: "wellFormatted (Some ''02:30'')" "wellFormatted (Some ''04:00'')"
    by code_simp+
  have a: "attendanceStep exDbNewYork ''U1'' exEarly (exRecord ''S1'') = Inr (exRecord ''S1'')"
    by (simp add: attendanceStep_def exEarly_def noPatch_def)
  have g: "generateSessionBreakdown newYork 1772982000000 ''02:30'' ''04:00'' 2
             = [\<lparr>slotNumber = 1, slotStart = ''03:30'', slotEnd = ''04:15''\<rparr>,
                \<lparr>slotNumber = 2, slotStart = ''04:15'', slotEnd = ''05:00''\<rparr>]"
    by code_simp
  have n: "now exDbNewYork = 1772982000000" by (simp add: exDbNewYork_def)
  have i: "recordId (exRecord ''S1'') = exId" by (simp add: exRecord_def exId_def)
  have r: "editResult exDbNewYork exEarly (exRecord ''S1'')
             = (exRecord ''S1'')\<lparr>startTime := ''02:30'', endTime := ''04:00'',
               sessionBreakdown := [\<lparr>slotNumber = 1, slotStart = ''03:30'', slotEnd = ''04:15''\<rparr>,
                                    \<lparr>slotNumber = 2, slotStart = ''04:15'', slotEnd = ''05:00''\<rparr>],
               lastModifiedAt := Some 1772982000000\<rparr>"
    using ps pe
    by (simp add: editResult_def applyTimes_def Let_def patchStart_def patchEnd_def newYork_now g n
        exRecord_def exEarly_def noPatch_def)
  have e: "editAttendanceRecord exDbNewYork ''U1'' exId exEarly [exRecord ''S1'']
     = (Inr (editResult exDbNewYork exEarly (exRecord ''S1'')),
        [editResult exDbNewYork exEarly (exRecord ''S1'')])"
    using w i by (simp add: editAttendanceRecord_eq [OF t find_exId(1) o f] ps pe a)
  have m: "toMinutes ''02:30'' = Some 150" by code_simp
  have s: "map (slotAt 1 150) [1..2]
       = [\<lparr>slotNumber = 1, slotStart = ''02:30'', slotEnd = ''03:15''\<rparr>,
          \<lparr>slotNumber = 2, slotStart = ''03:15'', slotEnd = ''04:00''\<rparr>]"
    by code_simp
  show ?thesis
    by (rule conjI [OF e [unfolded r] conjI [OF m s]])
qed

theorem totals_consistent_witness:
  "reachable [exRemarked]
   \<and> list_all (\<lambda>r. list_all (\<lambda>e. int (totalPresent e + totalAbsent e) = numSessions r)
                        (attendance r)) [exRemarked]"
proof -
  have "reachable [exRecord ''S1'']"
    by (rule reachable.mark [OF reachable.empty exMark_creates])
  then have r: "reachable [exRemarked]"
    by (rule reachable.edit [OF _ exRemark_edits])
  from totals_consistent [OF r] r show ?thesis
    by (simp add: list_all_iff)
qed

section \<open>Properties of the rounding of a double\<close>

lemma bitlen_nonneg: "0 \<le> bitlen n"
proof (induction n rule: bitlen.induct)
  case (1 n)
  then show ?case by (cases "n \<le> 0") (simp_all add: bitlen.simps [of n])
qed

lemma bitlen_pos: "0 < n \<Longrightarrow> 1 \<le> bitlen n"
  using bitlen_nonneg [of "n div 2"] by (simp add: bitlen.simps [of n])

lemma bitlen_1: "bitlen 1 = 1"
  by (simp add: bitlen.simps [of 1] bitlen.simps [of 0])

lemma bitlen_bounds:
  "0 < n \<Longrightarrow> 2 ^ nat (bitlen n - 1) \<le> n \<and> n < 2 ^ nat (bitlen n)"
proof (induction n rule: bitlen.induct)
  case (1 n)
  have b: "bitlen n = 1 + bitlen (n div 2)" using "1.prems" by (simp add: bitlen.simps [of n])
  show ?case
  proof (cases "n div 2 = 0")
    case True
    with "1.prems" have "n = 1" by presburger
    then show ?thesis by (simp add: bitlen_1)
  next
    case False
    with "1.prems" have p: "0 < n div 2" by presburger
    from "1.IH" [OF _ p] "1.prems"
    have ih: "2 ^ nat (bitlen (n div 2) - 1) \<le> n div 2" "n div 2 < 2 ^ nat (bitlen (n div 2))"
      by simp_all
    from bitlen_pos [OF p] have e: "nat (bitlen n - 1) = Suc (nat (bitlen (n div 2) - 1))"
      "nat (bitlen n) = Suc (nat (bitlen (n div 2)))"
      by (simp_all add: b nat_add_distrib)
    have "2 * 2 ^ nat (bitlen (n div 2) - 1) \<le> 2 * (n div 2)" using ih(1) by simp
    also have "\<dots> \<le> n" by presburger
    finally have l: "2 ^ nat (bitlen n - 1) \<le> n" by (simp add: e)
    have "n < 2 * (n div 2 + 1)" by presburger
    also have "\<dots> \<le> 2 * 2 ^ nat (bitlen (n div 2))" using ih(2) by simp
    finally have u: "n < 2 ^ nat (bitlen n)" by (simp add: e)
    from l u show ?thesis ..
  qed
qed

lemma bitlen_bounds_powi:
  fixes n :: int
  assumes "0 < n"
  shows "(2::rat) powi (bitlen n - 1) \<le> of_int n" "of_int n < (2::rat) powi (bitlen n)"
proof -
  from bitlen_bounds [OF assms] have l: "2 ^ nat (bitlen n - 1) \<le> n" and u: "n < 2 ^ nat (bitlen n)"
    by simp_all
  from bitlen_pos [OF assms] have p: "0 \<le> bitlen n - 1" "0 \<le> bitlen n" by simp_all
  have "(of_int (2 ^ nat (bitlen n - 1)) :: rat) \<le> of_int n" using l by (simp only: of_int_le_iff)
  then show "(2::rat) powi (bitlen n - 1) \<le> of_int n" using p(1) by (simp add: power_int_def)
  have "(of_int n :: rat) < of_int (2 ^ nat (bitlen n))" using u by (simp only: of_int_less_iff)
  then show "of_int n < (2::rat) powi (bitlen n)" using p(2) by (simp add: power_int_def)
qed

lemma powi_pos: "0 < (2::rat) powi e"
  by (simp add: power_int_def)

lemma ilog2_lower:
  assumes "0 < x"
  shows "2 powi (ilog2 x) \<le> x"
proof -
  obtain a b where q: "quotient_of x = (a, b)" by (cases "quotient_of x")
  then have b: "0 < b" and x: "x = of_int a / of_int b"
    by (simp_all add: quotient_of_denom_pos quotient_of_div)
  from assms x b have a: "0 < a" by (simp add: zero_less_divide_iff)
  define d where "d = bitlen a - bitlen b"
  show ?thesis
  proof (cases "2 powi d \<le> x")
    case True
    then show ?thesis by (simp add: ilog2_def q d_def Let_def)
  next
    case False
    then have i: "ilog2 x = d - 1" by (simp add: ilog2_def q d_def Let_def)
    have "(2::rat) powi (d - 1) = 2 powi (bitlen a - 1) / 2 powi (bitlen b)"
      by (simp add: d_def power_int_diff [symmetric] algebra_simps)
    also have "\<dots> \<le> of_int a / 2 powi (bitlen b)"
      using bitlen_bounds_powi(1) [OF a] powi_pos [of "bitlen b"] by (simp add: divide_right_mono)
    also have "\<dots> \<le> of_int a / of_int b"
      using bitlen_bounds_powi(2) [OF b] a b by (simp add: frac_le)
    finally have "(2::rat) powi (d - 1) \<le> x" by (simp add: x)
    then show ?thesis by (simp only: i)
  qed
qed

lemma roundHalfEven_error: "\<bar>of_int (roundHalfEven y) - y\<bar> \<le> 1 / 2"
proof -
  have "of_int \<lfloor>y\<rfloor> \<le> y" "y < of_int \<lfloor>y\<rfloor> + 1" by linarith+
  then show ?thesis
    by (auto simp add: roundHalfEven_def Let_def abs_le_iff)
qed

lemma fl_error:
  assumes "0 < x"
  shows "\<bar>fl x - x\<bar> \<le> x / 2 ^ 53" "0 \<le> fl x"
proof -
  define e where "e = ilog2 x - 52"
  define u where "u = (2::rat) powi e"
  define m where "m = roundHalfEven (x / u)"
  have up: "0 < u" by (simp add: u_def powi_pos)
  have f: "fl x = of_int m * u"
    using assms by (simp add: fl_def Let_def e_def u_def m_def)
  have "\<bar>of_int m - x / u\<bar> \<le> 1 / 2" unfolding m_def by (rule roundHalfEven_error)
  then have "\<bar>of_int m - x / u\<bar> * u \<le> 1 / 2 * u" using up by (simp add: mult_right_mono)
  moreover have "\<bar>of_int m - x / u\<bar> * u = \<bar>of_int m * u - x\<bar>"
  proof -
    have "(of_int m - x / u) * u = of_int m * u - x" using up by (simp add: field_simps)
    then have "\<bar>of_int m * u - x\<bar> = \<bar>of_int m - x / u\<bar> * \<bar>u\<bar>"
      by (simp only: abs_mult [symmetric])
    with up show ?thesis by simp
  qed
  ultimately have err: "\<bar>fl x - x\<bar> \<le> u / 2" by (simp add: f)
  have "u * 2 ^ 52 = 2 powi (ilog2 x)"
    by (simp add: u_def e_def power_int_diff power_int_def [of _ 52])
  with ilog2_lower [OF assms] have "u * 2 ^ 52 \<le> x" by simp
  then have "u / 2 \<le> x / 2 ^ 53" by (simp add: field_simps)
  with err show "\<bar>fl x - x\<bar> \<le> x / 2 ^ 53" by linarith
  have "0 \<le> x / u" using assms up by simp
  then have "0 \<le> m" unfolding m_def roundHalfEven_def Let_def
    by (auto simp add: zero_le_floor intro: add_nonneg_nonneg)
  with up show "0 \<le> fl x" by (simp add: f)
qed

lemma frac_bounds:
  fixes N D :: int
  assumes "0 < D" and "\<not> D dvd N"
  shows "of_int \<lfloor>(of_int N / of_int D :: rat)\<rfloor> + 1 / of_int D \<le> (of_int N / of_int D :: rat)"
    and "(of_int N / of_int D :: rat) + 1 / of_int D \<le> of_int \<lfloor>(of_int N / of_int D :: rat)\<rfloor> + 1"
proof -
  have f: "\<lfloor>(of_int N / of_int D :: rat)\<rfloor> = N div D" by (rule floor_divide_of_int_eq)
  from assms(2) have "N mod D \<noteq> 0" by (simp add: dvd_eq_mod_eq_0)
  moreover have "0 \<le> N mod D" "N mod D < D" using assms(1) by simp_all
  ultimately have m: "1 \<le> N mod D" "N mod D \<le> D - 1" by linarith+
  have "N = D * (N div D) + N mod D" by simp
  then have "(of_int N :: rat) = of_int D * of_int (N div D) + of_int (N mod D)"
    by (metis of_int_add of_int_mult)
  then have z: "(of_int N / of_int D :: rat) = of_int (N div D) + of_int (N mod D) / of_int D"
    using assms(1) by (simp add: field_simps)
  have "(1::rat) \<le> of_int (N mod D)" "(of_int (N mod D) :: rat) \<le> of_int D - 1"
    using m by (metis of_int_1 of_int_le_iff, metis of_int_1 of_int_diff of_int_le_iff)
  then have "(1 / of_int D :: rat) \<le> of_int (N mod D) / of_int D"
    "(of_int (N mod D) / of_int D :: rat) + 1 / of_int D \<le> 1"
    using assms(1) by (simp_all add: field_simps)
  then have a: "of_int (N div D) + 1 / of_int D \<le> (of_int N / of_int D :: rat)"
    and b: "(of_int N / of_int D :: rat) + 1 / of_int D \<le> of_int (N div D) + 1"
    by (simp_all add: z)
  show "of_int \<lfloor>(of_int N / of_int D :: rat)\<rfloor> + 1 / of_int D \<le> (of_int N / of_int D :: rat)"
    unfolding f by (rule a)
  show "(of_int N / of_int D :: rat) + 1 / of_int D \<le> of_int \<lfloor>(of_int N / of_int D :: rat)\<rfloor> + 1"
    unfolding f by (rule b)
qed

lemma floor_stable:
  fixes z z' g :: rat
  assumes "of_int \<lfloor>z\<rfloor> + g \<le> z" and "z + g \<le> of_int \<lfloor>z\<rfloor> + 1" and "\<bar>z' - z\<bar> < g"
  shows "\<lfloor>z'\<rfloor> = \<lfloor>z\<rfloor>"
proof (rule floor_unique)
  from assms show "of_int \<lfloor>z\<rfloor> \<le> z'" by linarith
  from assms show "z' < of_int \<lfloor>z\<rfloor> + 1" by linarith
qed

lemma double_rounding_error:
  fixes x :: rat
  assumes "0 < x" and "x \<le> 1"
  shows "\<bar>fl (fl x * 100) - x * 100\<bar> \<le> 300 / 2 ^ 53" and "0 \<le> fl (fl x * 100)"
proof -
  define q where "q = fl x"
  from fl_error(1) [OF assms(1)] have eq: "\<bar>q - x\<bar> \<le> x / 2 ^ 53" by (simp add: q_def)
  then have ql: "x - x / 2 ^ 53 \<le> q" and qu: "q \<le> x + x / 2 ^ 53" by linarith+
  have "0 < x - x / 2 ^ 53" using assms(1) by (simp add: field_simps)
  with ql have qp: "0 < q * 100" by linarith
  from fl_error [OF qp] have ey: "\<bar>fl (q * 100) - q * 100\<bar> \<le> q * 100 / 2 ^ 53"
    and nn: "0 \<le> fl (q * 100)" by simp_all
  have "x / 2 ^ 53 \<le> x" using assms(1) by (simp add: field_simps)
  with qu assms(2) have "q \<le> 2" by linarith
  then have "q * 100 / 2 ^ 53 \<le> 200 / 2 ^ 53" by simp
  with ey have e1: "\<bar>fl (q * 100) - q * 100\<bar> \<le> 200 / 2 ^ 53" by linarith
  have "x / 2 ^ 53 \<le> 1 / 2 ^ 53" using assms(2) by (simp add: divide_right_mono)
  with eq have "\<bar>q - x\<bar> \<le> 1 / 2 ^ 53" by linarith
  then have e2: "\<bar>q * 100 - x * 100\<bar> \<le> 100 / 2 ^ 53" by linarith
  from e1 e2 show "\<bar>fl (fl x * 100) - x * 100\<bar> \<le> 300 / 2 ^ 53"
    unfolding q_def [symmetric] by linarith
  from nn show "0 \<le> fl (fl x * 100)" by (simp add: q_def)
qed

lemma toFixed2_exact:
  fixes p :: nat and n :: int
  assumes n: "0 < n" and pn: "int p \<le> n" and big: "n \<le> 2 ^ 37" and nt: "\<not> roundingTie p n"
  shows "toFixed2 (fl (fl (of_nat p / of_int n) * 100)) = toFixed2 (of_nat p / of_int n * 100)"
proof (cases "p = 0")
  case True
  then show ?thesis by (simp add: fl_def toFixed2_def)
next
  case False
  define x :: rat where "x = of_nat p / of_int n"
  define y where "y = fl (fl x * 100)"
  have xp: "0 < x" using False n by (simp add: x_def)
  have "(of_nat p :: rat) \<le> of_int n" using pn by (metis of_int_le_iff of_int_of_nat_eq)
  then have x1: "x \<le> 1" using n by (simp add: x_def)
  from double_rounding_error [OF xp x1] have e: "\<bar>y - x * 100\<bar> \<le> 300 / 2 ^ 53" and y0: "0 \<le> y"
    by (simp_all add: y_def)
  define N where "N = 20000 * int p + n"
  define D where "D = 2 * n"
  have D: "0 < D" using n by (simp add: D_def)
  from nt have nd: "\<not> D dvd N" by (simp add: roundingTie_def N_def D_def)
  have z: "x * 100 * 100 + 1 / 2 = (of_int N / of_int D :: rat)"
    using n by (simp add: x_def N_def D_def field_simps)
  have "(of_int D :: rat) \<le> 2 ^ 38" 
  proof -
    have "D \<le> 2 ^ 38" using big by (simp add: D_def)
    then have "(of_int D :: rat) \<le> of_int (2 ^ 38)" by (simp only: of_int_le_iff)
    then show ?thesis by simp
  qed
  moreover have "0 < (of_int D :: rat)" using D by simp
  ultimately have g: "(1 / 2 ^ 38 :: rat) \<le> 1 / of_int D" by (simp add: frac_le)
  have "\<bar>(y * 100 + 1 / 2) - (x * 100 * 100 + 1 / 2)\<bar> \<le> 30000 / 2 ^ 53" using e by linarith
  also have "\<dots> < (1 / 2 ^ 38 :: rat)" by simp
  also note g
  finally have "\<bar>(y * 100 + 1 / 2) - (x * 100 * 100 + 1 / 2)\<bar> < 1 / of_int D" .
  then have c: "\<bar>(y * 100 + 1 / 2) - of_int N / of_int D\<bar> < 1 / of_int D" unfolding z .
  from floor_stable [OF frac_bounds [OF D nd] c]
  have "\<lfloor>y * 100 + 1 / 2\<rfloor> = \<lfloor>x * 100 * 100 + 1 / 2\<rfloor>" unfolding z .
  moreover have "0 \<le> x * 100" using xp by simp
  ultimately show ?thesis
    using y0 unfolding toFixed2_def x_def [symmetric] y_def [symmetric]
    by (simp add: not_less)
qed

lemma no_tie_without_32:
  fixes n :: int
  assumes "0 < n" and "\<not> 32 dvd n"
  shows "\<not> roundingTie p n"
proof
  assume "roundingTie p n"
  then obtain k where k: "20000 * int p + n = 2 * n * k" by (auto simp add: roundingTie_def dvd_def)
  then have "20000 * int p = n * (2 * k - 1)" by (simp add: algebra_simps)
  moreover have "(32::int) dvd 20000 * int p" by simp
  ultimately have "(32::int) dvd n * (2 * k - 1)" by simp
  moreover have "coprime (32::int) (2 * k - 1)"
  proof -
    have "odd (2 * k - 1)" by presburger
    then have "coprime (2::int) (2 * k - 1)" by simp
    then have "coprime ((2::int) ^ 5) (2 * k - 1)" by (simp only: coprime_power_left_iff) simp
    then show ?thesis by simp
  qed
  ultimately have "(32::int) dvd n" by (simp add: coprime_dvd_mult_left_iff)
  with assms(2) show False by simp
qed

section \<open>Properties of the subject summary\<close>

lemma addRecord_step:
  "addRecord sid (t, p, a) r = (t + sessionsIn sid r, p + presentIn sid r, a + absentIn sid r)"
  by (cases "entryOf sid r")
     (simp_all add: addRecord_def entryOf_def [symmetric] sessionsIn_def presentIn_def absentIn_def)

lemma foldl_addRecord:
  "foldl (addRecord sid) (t, p, a) rs
     = (t + sum_list (map (sessionsIn sid) rs), p + sum_list (map (presentIn sid) rs),
        a + sum_list (map (absentIn sid) rs))"
  by (induction rs arbitrary: t p a) (simp_all add: addRecord_step)

lemma summarize_sums:
  "summarize sid rs =
     \<lparr>totalClasses = length rs,
      totalSessions = sum_list (map (sessionsIn sid) rs),
      presentCount = sum_list (map (presentIn sid) rs),
      absentCount = sum_list (map (absentIn sid) rs),
      summaryPercentage =
        (if 0 < sum_list (map (sessionsIn sid) rs)
         then jsPercentage (sum_list (map (presentIn sid) rs)) (sum_list (map (sessionsIn sid) rs))
         else Num 0)\<rparr>"
  by (cases "rs = []") (simp_all add: summarize_def foldl_addRecord)

lemma find_list_ex: "list_ex p xs \<Longrightarrow> find p xs \<noteq> None"
  by (auto simp add: find_None_iff list_ex_iff)

lemma sessionsIn_found:
  "list_all (\<lambda>r. list_ex (\<lambda>att. studentId att = sid) (attendance r)) rs
     \<Longrightarrow> map (sessionsIn sid) rs = map numSessions rs"
  by (induction rs) (auto simp add: sessionsIn_def entryOf_def dest: find_list_ex)

lemma findAttendanceRecords_match:
  "list_all (\<lambda>r. list_ex (\<lambda>att. studentId att = sid) (attendance r))
     (findAttendanceRecords store sub sid gte lte)"
  by (simp add: findAttendanceRecords_def list_all_iff)

lemma present_le_sessions:
  "list_all recordOK rs \<Longrightarrow>
     int (sum_list (map (presentIn sid) rs)) \<le> sum_list (map (sessionsIn sid) rs)"
proof (induction rs)
  case Nil
  then show ?case by simp
next
  case (Cons r rs)
  then have ok: "recordOK r" and ih: "int (sum_list (map (presentIn sid) rs)) \<le> sum_list (map (sessionsIn sid) rs)"
    by simp_all
  have "int (presentIn sid r) \<le> sessionsIn sid r"
  proof (cases "entryOf sid r")
    case None
    then show ?thesis by (simp add: presentIn_def sessionsIn_def)
  next
    case (Some e)
    with recordOK_entry [OF ok] have "entryOK (numSessions r) e" by (simp add: entryOf_def)
    with Some show ?thesis by (simp add: presentIn_def sessionsIn_def entryOK_def)
  qed
  with ih show ?case by simp
qed

lemma jsPercentage_exact:
  assumes "0 < n" and "int p \<le> n" and "n \<le> 2 ^ 37" and "\<not> roundingTie p n"
  shows "jsPercentage p n = Num (fl (roundTo2 (of_nat p / of_int n * 100)))"
  using assms toFixed2_exact [OF assms]
  by (simp add: jsPercentage_def roundTo2_def parseFloat2_def)

lemma getAttendanceBySubject_Inr:
  assumes "getAttendanceBySubject db u sub sd ed store = Inr s"
  obtains st where "findStudentByUserId db u = Some st"
    "s = summarize (student_id st)
           (findAttendanceRecords store sub (student_id st) (dateBound db sd) (dateBound db ed))"
  using assms
  by (auto simp add: getAttendanceBySubject_def dateBound_def
           split: option.splits if_splits sum.splits)

lemma exClassOf_fields:
  "subjectId (exClassOf rid n p c) = ''SUB1''"
  "date (exClassOf rid n p c) = 20399"
  "numSessions (exClassOf rid n p c) = n"
  "list_ex (\<lambda>att. studentId att = ''S1'') (attendance (exClassOf rid n p c))"
  "sessionsIn ''S1'' (exClassOf rid n p c) = n"
  "presentIn ''S1'' (exClassOf rid n p c) = p"
  "absentIn ''S1'' (exClassOf rid n p c) = nat n - p"
  by (simp_all add: exClassOf_def exRecord_def sessionsIn_def presentIn_def absentIn_def entryOf_def)

lemma exStudent: "findStudentByUserId exDb ''U3''
   = Some \<lparr>student_id = ''S1'', student_userId = ''U3'', enrolledSubjects = [''SUB1'']\<rparr>"
  "findSubjectById exDb ''SUB1'' = Some exSubject"
  by (simp_all add: exDb_def)

lemma exTwo_summary:
  "getAttendanceBySubject exDb ''U3'' ''SUB1'' None None exTwo
     = Inr \<lparr>totalClasses = 2, totalSessions = 5, presentCount = 3, absentCount = 2,
            summaryPercentage = Num 60\<rparr>"
proof -
  have f: "findAttendanceRecords exTwo ''SUB1'' ''S1'' None None = exTwo"
    by (simp add: findAttendanceRecords_def exTwo_def exClassOf_fields)
  have j: "jsPercentage 3 5 = Num 60" by code_simp
  have "summarize ''S1'' exTwo = \<lparr>totalClasses = 2, totalSessions = 5, presentCount = 3,
          absentCount = 2, summaryPercentage = Num 60\<rparr>"
    unfolding summarize_sums by (simp add: exTwo_def exClassOf_fields j)
  then show ?thesis
    by (simp add: getAttendanceBySubject_def exStudent f)
qed

lemma exSixteen_summary:
  "getAttendanceBySubject exDb ''U3'' ''SUB1'' None None exSixteen
     = Inr \<lparr>totalClasses = 16, totalSessions = 160, presentCount = 23, absentCount = 137,
            summaryPercentage = Num (parseFloat2 1437)\<rparr>"
proof -
  have f: "findAttendanceRecords exSixteen ''SUB1'' ''S1'' None None = exSixteen"
    by (simp add: findAttendanceRecords_def exSixteen_def exClassOf_fields)
  have j: "jsPercentage 23 160 = Num (parseFloat2 1437)" by code_simp
  have "summarize ''S1'' exSixteen = \<lparr>totalClasses = 16, totalSessions = 160, presentCount = 23,
          absentCount = 137, summaryPercentage = Num (parseFloat2 1437)\<rparr>"
    unfolding summarize_sums by (simp add: exSixteen_def exClassOf_fields j)
  then show ?thesis
    by (simp add: getAttendanceBySubject_def exStudent f)
qed

text \<open>
  Claim C7, as amended. When \<open>getAttendanceBySubject\<close> answers, its summary is taken
  over the records of the subject that hold an entry of the student (within the dates
  asked for): \<open>totalClasses\<close> is their number, \<open>totalSessions\<close> the sum of their
  \<open>numSessions\<close>, \<open>presentCount\<close> and \<open>absentCount\<close> the sums of the student's stored
  totals, and the percentage is 0 when \<open>totalSessions\<close> is 0 and otherwise \<open>toFixed(2)\<close> of
  the double \<open>presentCount / totalSessions * 100\<close>. For consistent records with at most
  \<open>2 ^ 37\<close> sessions in all, that is \<open>presentCount / totalSessions * 100\<close> rounded to two
  decimals unless this value lies exactly halfway between two hundredths. Two records
  with 2 and 3 sessions and 2 and 1 presences give 5 sessions, 3 presences and 60.00.
\<close>

theorem subject_summary:
  assumes "getAttendanceBySubject db u sub sd ed store = Inr s"
  shows "(\<exists>st. findStudentByUserId db u = Some st \<and>
     (let rs = findAttendanceRecords store sub (student_id st) (dateBound db sd) (dateBound db ed)
      in totalClasses s = length rs
       \<and> totalSessions s = sum_list (map numSessions rs)
       \<and> presentCount s = sum_list (map (presentIn (student_id st)) rs)
       \<and> absentCount s = sum_list (map (absentIn (student_id st)) rs)
       \<and> summaryPercentage s
           = (if 0 < totalSessions s then jsPercentage (presentCount s) (totalSessions s)
              else Num 0)
       \<and> (list_all recordOK rs \<and> 0 < totalSessions s \<and> totalSessions s \<le> 2 ^ 37
            \<and> \<not> roundingTie (presentCount s) (totalSessions s) \<longrightarrow>
          summaryPercentage s
            = Num (fl (roundTo2 (of_nat (presentCount s) / of_int (totalSessions s) * 100))))))
     \<and> getAttendanceBySubject exDb ''U3'' ''SUB1'' None None exTwo
         = Inr \<lparr>totalClasses = 2, totalSessions = 5, presentCount = 3, absentCount = 2,
                summaryPercentage = Num 60\<rparr>"
proof -
  from assms obtain st where st: "findStudentByUserId db u = Some st"
    and s: "s = summarize (student_id st)
           (findAttendanceRecords store sub (student_id st) (dateBound db sd) (dateBound db ed))"
    by (rule getAttendanceBySubject_Inr)
  let ?sid = "student_id st"
  let ?rs = "findAttendanceRecords store sub ?sid (dateBound db sd) (dateBound db ed)"
  have m: "map (sessionsIn ?sid) ?rs = map numSessions ?rs"
    by (rule sessionsIn_found [OF findAttendanceRecords_match])
  have s': "s = \<lparr>totalClasses = length ?rs,
      totalSessions = sum_list (map numSessions ?rs),
      presentCount = sum_list (map (presentIn ?sid) ?rs),
      absentCount = sum_list (map (absentIn ?sid) ?rs),
      summaryPercentage =
        (if 0 < sum_list (map numSessions ?rs)
         then jsPercentage (sum_list (map (presentIn ?sid) ?rs)) (sum_list (map numSessions ?rs))
         else Num 0)\<rparr>"
    unfolding s summarize_sums m ..
  have a: "totalClasses s = length ?rs" "totalSessions s = sum_list (map numSessions ?rs)"
    "presentCount s = sum_list (map (presentIn ?sid) ?rs)"
    "absentCount s = sum_list (map (absentIn ?sid) ?rs)"
    "summaryPercentage s
           = (if 0 < totalSessions s then jsPercentage (presentCount s) (totalSessions s)
              else Num 0)"
    by (simp_all add: s')
  have b: "summaryPercentage s
            = Num (fl (roundTo2 (of_nat (presentCount s) / of_int (totalSessions s) * 100)))"
    if h: "list_all recordOK ?rs \<and> 0 < totalSessions s \<and> totalSessions s \<le> 2 ^ 37
            \<and> \<not> roundingTie (presentCount s) (totalSessions s)"
  proof -
    from h present_le_sessions [of ?rs ?sid] have "int (presentCount s) \<le> totalSessions s"
      by (simp add: a(2,3) m)
    with h jsPercentage_exact [of "totalSessions s" "presentCount s"] show ?thesis
      by (simp add: a(5))
  qed
  from st a b exTwo_summary show ?thesis
    unfolding Let_def by blast
qed

lemma length_marksWith: "length (marksWith n p) = nat n"
  by (simp add: marksWith_def)

lemma statusesValid_marksWith: "statusesValid (marksWith n p)"
  by (simp add: marksWith_def statusesValid_def list_all_iff)

lemma recordOK_exClassOf: "0 \<le> n \<Longrightarrow> int p \<le> n \<Longrightarrow> recordOK (exClassOf rid n p pct)"
  by (simp add: recordOK_def exClassOf_def entryOK_def length_marksWith statusesValid_marksWith)

lemma exSixteen_OK: "list_all recordOK exSixteen"
  by (simp add: exSixteen_def recordOK_exClassOf)

text \<open>
  The claim as stated fails at a tie: with 23 presences in 160 sessions the exact value
  is 14.375, which rounds to 14.38, while the double product is just below 14.375 and
  the summary reports 14.37.
\<close>

theorem subject_summary_counterexample:
  "list_all recordOK exSixteen
   \<and> getAttendanceBySubject exDb ''U3'' ''SUB1'' None None exSixteen
     = Inr \<lparr>totalClasses = 16, totalSessions = 160, presentCount = 23, absentCount = 137,
            summaryPercentage = Num (parseFloat2 1437)\<rparr>
   \<and> roundTo2 (of_nat 23 / of_int 160 * 100) = 1438 / 100
   \<and> Num (parseFloat2 1437) \<noteq> Num (fl (roundTo2 (of_nat 23 / of_int 160 * 100)))"
proof -
  have r: "roundTo2 (of_nat 23 / of_int 160 * 100) = 1438 / 100" by code_simp
  have n: "parseFloat2 1437 \<noteq> fl (1438 / 100)" by code_simp
  have n': "Num (parseFloat2 1437) \<noteq> Num (fl (roundTo2 (of_nat 23 / of_int 160 * 100)))"
    using n by (simp only: r jsnumber.inject not_False_eq_True)
  show ?thesis by (rule conjI [OF exSixteen_OK conjI [OF exSixteen_summary conjI [OF r n']]])
qed

theorem subject_summary_witness:
  "getAttendanceBySubject exDb ''U3'' ''SUB1'' None None exTwo
     = Inr \<lparr>totalClasses = 2, totalSessions = 5, presentCount = 3, absentCount = 2,
            summaryPercentage = Num 60\<rparr>
   \<and> (\<exists>st. findStudentByUserId exDb ''U3'' = Some st \<and>
     (let rs = findAttendanceRecords exTwo ''SUB1'' (student_id st) (dateBound exDb None)
                 (dateBound exDb None);
          s = \<lparr>totalClasses = 2, totalSessions = 5, presentCount = 3, absentCount = 2,
               summaryPercentage = Num 60\<rparr>
      in totalClasses s = length rs
       \<and> totalSessions s = sum_list (map numSessions rs)
       \<and> presentCount s = sum_list (map (presentIn (student_id st)) rs)
       \<and> absentCount s = sum_list (map (absentIn (student_id st)) rs)
       \<and> summaryPercentage s
           = (if 0 < totalSessions s then jsPercentage (presentCount s) (totalSessions s)
              else Num 0)))"
proof -
  from subject_summary [OF exTwo_summary]
  obtain st where "findStudentByUserId exDb ''U3'' = Some st"
    "(let rs = findAttendanceRecords exTwo ''SUB1'' (student_id st) (dateBound exDb None)
                 (dateBound exDb None);
          s = \<lparr>totalClasses = 2, totalSessions = 5, presentCount = 3, absentCount = 2,
               summaryPercentage = Num 60\<rparr>
      in totalClasses s = length rs
       \<and> totalSessions s = sum_list (map numSessions rs)
       \<and> presentCount s = sum_list (map (presentIn (student_id st)) rs)
       \<and> absentCount s = sum_list (map (absentIn (student_id st)) rs)
       \<and> summaryPercentage s
           = (if 0 < totalSessions s then jsPercentage (presentCount s) (totalSessions s)
              else Num 0))"
    unfolding Let_def by blast
  with exTwo_summary show ?thesis by blast
qed

section \<open>Properties of the percentage of one student\<close>

lemma find_updateFirst:
  "find p xs = Some e \<Longrightarrow> p (f e) \<Longrightarrow> find p (updateFirst p f xs) = Some (f e)"
  by (induction xs) (auto split: if_splits)

lemma castNumber_jsPercentage: "n \<noteq> 0 \<Longrightarrow> castNumber old (jsPercentage p n) = jsPercentage p n"
  by (simp add: castNumber_def jsPercentage_def)

lemma calculateStudentTotals_entry:
  assumes "calculateStudentTotals r sid = Inr r'" and "entryOf sid r = Some e"
    and "numSessions r \<noteq> 0"
  shows "\<exists>e'. entryOf sid r' = Some e'
           \<and> totalPresent e' = countStatus PRESENT (sessions e)
           \<and> totalAbsent e' = countStatus ABSENT (sessions e)
           \<and> attendancePercentage e' = jsPercentage (totalPresent e') (numSessions r)
           \<and> int (totalPresent e' + totalAbsent e') = numSessions r"
proof -
  let ?p = "countStatus PRESENT (sessions e)" and ?a = "countStatus ABSENT (sessions e)"
  let ?f = "\<lambda>att. att\<lparr>totalPresent := ?p, totalAbsent := ?a,
                            attendancePercentage :=
                              castNumber (attendancePercentage att)
                                (jsPercentage ?p (numSessions r))\<rparr>"
  from assms have chk: "int (?p + ?a) = numSessions r"
    and r': "attendance r' = updateFirst (\<lambda>att. studentId att = sid) ?f (attendance r)"
    by (auto simp add: calculateStudentTotals_def entryOf_def Let_def split: if_splits)
  from assms(2) have "studentId e = sid" by (auto simp add: entryOf_def dest: find_Some_set)
  with assms(2) have "entryOf sid r' = Some (?f e)"
    unfolding entryOf_def r' by (intro find_updateFirst) simp_all
  with chk assms(3) show ?thesis by (simp add: castNumber_jsPercentage)
qed

lemma validateStudentAttendance_entry:
  assumes "validateStudentAttendance db cs n x = Inr v"
  shows "totalPresent v = countStatus PRESENT (in_sessions x)
       \<and> totalAbsent v = countStatus ABSENT (in_sessions x)
       \<and> attendancePercentage v = jsPercentage (totalPresent v) n
       \<and> int (totalPresent v + totalAbsent v) = n"
proof -
  from assms obtain p a where vs: "validateSessions (in_studentId x) n (in_sessions x) = Inr (p, a)"
    and v: "v = \<lparr>studentId = in_studentId x, sessions = in_sessions x, totalPresent = p,
                 totalAbsent = a, attendancePercentage = jsPercentage p n\<rparr>"
    by (auto simp add: validateStudentAttendance_def split: option.splits if_splits sum.splits)
  from validateSessions_Inr(1,4,5) [OF vs] show ?thesis by (simp add: v)
qed

lemma roundTo2_nearest:
  fixes p :: nat and n :: int
  assumes n: "0 < n" and nt: "\<not> roundingTie p n"
  shows "\<bar>roundTo2 (of_nat p / of_int n * 100) - of_nat p / of_int n * 100\<bar> < 1 / 200"
proof -
  define X :: rat where "X = of_nat p / of_int n * 100"
  define N where "N = 20000 * int p + n"
  define D where "D = 2 * n"
  have D: "0 < D" using n by (simp add: D_def)
  from nt have nd: "\<not> D dvd N" by (simp add: roundingTie_def N_def D_def)
  have z: "X * 100 + 1 / 2 = (of_int N / of_int D :: rat)"
    using n by (simp add: X_def N_def D_def field_simps)
  have X0: "0 \<le> X" using n by (simp add: X_def)
  define H where "H = \<lfloor>X * 100 + 1 / 2\<rfloor>"
  have "0 < (1 / of_int D :: rat)" using D by simp
  with frac_bounds [OF D nd] have "of_int H < X * 100 + 1 / 2" "X * 100 + 1 / 2 < of_int H + 1"
    unfolding z [symmetric] H_def by linarith+
  then have "\<bar>of_int H - X * 100\<bar> < 1 / 2" by linarith
  then have "\<bar>(of_int H - X * 100) / 100\<bar> < 1 / 2 / 100"
    by (simp only: abs_divide) simp
  then have "\<bar>of_int H / 100 - X\<bar> < 1 / 200" by (simp add: diff_divide_distrib)
  moreover have "roundTo2 X = of_int H / 100"
    using X0 by (simp add: roundTo2_def toFixed2_def H_def not_less)
  ultimately have "\<bar>roundTo2 X - X\<bar> < 1 / 200" by (simp only:)
  then show ?thesis unfolding X_def .
qed

lemma exEntry_validated:
  "validateStudentAttendance exDb exSection 2 \<lparr>in_studentId = ''S1'', in_sessions = exSessions\<rparr>
     = Inr exEntry"
  by code_simp

lemma small_no_tie:
  fixes n :: int
  assumes "1 \<le> n" and "n \<le> MAX_SESSIONS_PER_CLASS"
  shows "\<not> 32 dvd n" and "n \<le> 2 ^ 37"
proof -
  from assms have b: "0 < n" "n < 32" by (simp_all add: MAX_SESSIONS_PER_CLASS_def)
  then show "\<not> 32 dvd n" by (auto dest: zdvd_imp_le)
  from b show "n \<le> 2 ^ 37" by simp
qed

lemma validateRequest_range:
  assumes "validateRequest req = Inr v"
  shows "1 \<le> vr_numSessions v \<and> vr_numSessions v \<le> MAX_SESSIONS_PER_CLASS"
proof -
  from assms obtain csid d st en n att where
    "req_numSessions req = Some n" and "\<not> (n < 1 \<or> n > MAX_SESSIONS_PER_CLASS)"
    and "vr_numSessions v = n"
    by (auto simp add: validateRequest_def split: option.splits if_splits prod.splits)
  then show ?thesis by simp
qed

lemma validateStudentAttendance_computed:
  assumes "validateStudentAttendance db cs n x = Inr v"
  shows "entryComputed n v"
proof -
  from assms have "sessions v = in_sessions x"
    by (auto simp add: validateStudentAttendance_def split: option.splits if_splits sum.splits)
  with validateStudentAttendance_entry [OF assms] show ?thesis
    by (simp add: entryComputed_def)
qed

lemma validateAttendance_computed:
  "validateAttendance db cs n xs = Inr vs \<Longrightarrow> list_all (entryComputed n) vs"
proof (induction xs arbitrary: vs)
  case Nil
  then show ?case by simp
next
  case (Cons x xs)
  from Cons.prems obtain v vs' where v: "validateStudentAttendance db cs n x = Inr v"
    and r: "validateAttendance db cs n xs = Inr vs'" and e: "vs = v # vs'"
    by (auto split: sum.splits)
  from validateStudentAttendance_computed [OF v] Cons.IH [OF r] e show ?case by simp
qed

lemma entryComputed_exact:
  assumes "entryComputed n e" and "1 \<le> n" and "n \<le> MAX_SESSIONS_PER_CLASS"
  shows "attendancePercentage e = Num (fl (roundTo2 (of_nat (totalPresent e) / of_int n * 100)))"
proof -
  from assms(1) have p: "int (totalPresent e) \<le> n"
    and a: "attendancePercentage e = jsPercentage (totalPresent e) n"
    by (simp_all add: entryComputed_def)
  from small_no_tie [OF assms(2,3)] have "\<not> 32 dvd n" "n \<le> 2 ^ 37" by simp_all
  with assms(2) p no_tie_without_32 [of n "totalPresent e"] show ?thesis
    unfolding a by (intro jsPercentage_exact) simp_all
qed

lemma markAttendance_computed:
  assumes "markAttendance db u req store = (Inr r, store')"
  shows "1 \<le> numSessions r \<and> numSessions r \<le> MAX_SESSIONS_PER_CLASS
       \<and> list_all (\<lambda>e. entryComputed (numSessions r) e
            \<and> attendancePercentage e
                = Num (fl (roundTo2 (of_nat (totalPresent e) / of_int (numSessions r) * 100))))
           (attendance r)"
proof -
  from assms obtain v t cs d vs where
    v: "validateRequest req = Inr v" and c: "resolveClass db u v = Inr (t, cs, d)"
    and a: "validateAttendance db cs (vr_numSessions v) (vr_attendance v) = Inr vs"
    and r: "numSessions r = vr_numSessions v" "attendance r = vs"
    by (auto simp add: markAttendance_def Let_def split: sum.splits prod.splits)
  from validateRequest_range [OF v] r have n: "1 \<le> numSessions r" "numSessions r \<le> MAX_SESSIONS_PER_CLASS"
    by simp_all
  from validateAttendance_computed [OF a] r have "list_all (entryComputed (numSessions r)) (attendance r)"
    by simp
  with n entryComputed_exact show ?thesis
    by (auto simp add: list_all_iff)
qed

lemma updateFirst_twice:
  "(\<And>x. p x \<Longrightarrow> p (g x)) \<Longrightarrow>
     updateFirst p f (updateFirst p g xs) = updateFirst p (\<lambda>x. f (g x)) xs"
  by (induction xs) auto

lemma updateFirst_none: "find p xs = None \<Longrightarrow> updateFirst p f xs = xs"
  by (induction xs) (auto split: if_splits)

text \<open>
  Replacing the sessions of a student and computing the totals again leaves every
  entry of the record computed.
\<close>

lemma recompute_computed:
  assumes c: "calculateStudentTotals (setStudentSessions sid ss r) sid = Inr r'"
    and q: "list_all (entryComputed (numSessions r)) (attendance r)"
    and n: "numSessions r \<noteq> 0"
  shows "list_all (entryComputed (numSessions r)) (attendance r')"
proof (cases "find (\<lambda>att. studentId att = sid) (attendance r)")
  case None
  then have "attendance (setStudentSessions sid ss r) = attendance r"
    by (simp add: setStudentSessions_def updateFirst_none)
  with c None have "attendance r' = attendance r"
    by (auto simp add: calculateStudentTotals_def)
  with q show ?thesis by simp
next
  case (Some e0)
  define P where "P = countStatus PRESENT ss"
  define A where "A = countStatus ABSENT ss"
  define f where "f = (\<lambda>att :: studentAttendance. att\<lparr>totalPresent := P, totalAbsent := A,
                         attendancePercentage :=
                           castNumber (attendancePercentage att)
                             (jsPercentage P (numSessions r))\<rparr>)"
  define g where "g = (\<lambda>att :: studentAttendance. att\<lparr>sessions := ss\<rparr>)"
  from Some have e0: "studentId e0 = sid" by (auto dest: find_Some_set)
  have f1: "find (\<lambda>att. studentId att = sid) (attendance (setStudentSessions sid ss r))
              = Some (g e0)"
    unfolding setStudentSessions_def using Some e0
    by (simp add: find_updateFirst g_def)
  from c f1 have chk: "int (P + A) = numSessions r"
    and r': "attendance r' = updateFirst (\<lambda>att. studentId att = sid) f
                (updateFirst (\<lambda>att. studentId att = sid) g (attendance r))"
    by (auto simp add: calculateStudentTotals_def Let_def P_def A_def f_def g_def
          setStudentSessions_def split: if_splits)
  have "attendance r' = updateFirst (\<lambda>att. studentId att = sid) (\<lambda>x. f (g x)) (attendance r)"
    unfolding r' by (rule updateFirst_twice) (simp add: g_def)
  moreover have "list_all (entryComputed (numSessions r))
      (updateFirst (\<lambda>att. studentId att = sid) (\<lambda>x. f (g x)) (attendance r))"
    using q chk n
    by (intro updateFirst_all)
       (simp_all add: entryComputed_def castNumber_jsPercentage f_def g_def P_def A_def)
  ultimately show ?thesis by simp
qed

lemma setStudentSessions_numSessions: "numSessions (setStudentSessions sid ss r) = numSessions r"
  by (simp add: setStudentSessions_def)

lemma updateWithAudit_fields:
  "numSessions (updateWithAudit r u t) = numSessions r"
  "attendance (updateWithAudit r u t) = attendance r"
  by (simp_all add: updateWithAudit_def)

lemma recompute_recordComputed:
  assumes "calculateStudentTotals (setStudentSessions sid ss r) sid = Inr r1"
    and "recordComputed r"
  shows "recordComputed (updateWithAudit r1 u t)"
proof -
  from assms(2) have n: "numSessions r \<noteq> 0"
    and q: "list_all (entryComputed (numSessions r)) (attendance r)"
    by (simp_all add: recordComputed_def)
  from calculateStudentTotals_fields [OF assms(1)]
  have k: "numSessions r1 = numSessions r" by (simp add: setStudentSessions_numSessions)
  from recompute_computed [OF assms(1) q n] assms(2) k show ?thesis
    by (simp add: recordComputed_def updateWithAudit_fields)
qed

lemma updateStudentAllSessions_computed:
  assumes "updateStudentAllSessions r sid sessionsData modifiedBy t = Inr r'"
    and "recordComputed r"
  shows "recordComputed r'"
proof -
  from assms(1) obtain ss r1 where
    c: "calculateStudentTotals (setStudentSessions sid ss r) sid = Inr r1"
    and r': "r' = updateWithAudit r1 modifiedBy t"
    by (auto simp add: updateStudentAllSessions_def split: option.splits if_splits sum.splits)
  show ?thesis unfolding r' by (rule recompute_recordComputed [OF c assms(2)])
qed

lemma updateAttendance_computed:
  "updateAttendance r us modifiedBy t = Inr r' \<Longrightarrow> recordComputed r \<Longrightarrow> recordComputed r'"
proof (induction us arbitrary: r)
  case Nil
  then show ?case by simp
next
  case (Cons u us)
  from Cons.prems(1) obtain r1 where
    a: "updateStudentAllSessions r (in_studentId u) (in_sessions u) modifiedBy t = Inr r1"
    and b: "updateAttendance r1 us modifiedBy t = Inr r'"
    by (auto split: if_splits sum.splits)
  show ?case
    by (rule Cons.IH [OF b updateStudentAllSessions_computed [OF a Cons.prems(2)]])
qed

lemma recordComputed_editResult: "recordComputed (editResult db patch r) = recordComputed r"
  by (simp add: editResult_def Let_def recordComputed_def applyTimes_fields)

lemma editAttendanceRecord_computed:
  assumes "editAttendanceRecord db userId rid patch store = (Inr r', store')"
    and "list_all recordComputed store"
  shows "list_all recordComputed store'"
proof -
  from assms(1) obtain t r r1 where f: "find (\<lambda>x. recordId x = rid) store = Some r"
    and u: "(case patch_attendance patch of None \<Rightarrow> Inr r
      | Some att \<Rightarrow> updateAttendance r att userId (now db)) = Inr r1"
    and r': "r' = editResult db patch r1"
    and s': "store' = updateFirst (\<lambda>x. recordId x = rid) (\<lambda>x. r') store"
    by (rule editAttendanceRecord_Inr)
  from assms(2) f have "recordComputed r"
    by (auto simp add: list_all_iff dest: find_Some_set)
  with u have "recordComputed r1"
    by (cases "patch_attendance patch") (auto dest: updateAttendance_computed)
  then have "recordComputed r'" by (simp add: r' recordComputed_editResult)
  then show ?thesis unfolding s' by (intro updateFirst_all [OF assms(2)])
qed

lemma updateStudentSession_computed:
  assumes "updateStudentSession r sid num newStatus modifiedBy t = Inr r'"
    and "recordComputed r"
  shows "recordComputed r'"
proof -
  from assms(1) obtain ss r1 where
    c: "calculateStudentTotals (setStudentSessions sid ss r) sid = Inr r1"
    and r': "r' = updateWithAudit r1 modifiedBy t"
    by (auto simp add: updateStudentSession_def split: option.splits if_splits sum.splits)
  show ?thesis unfolding r' by (rule recompute_recordComputed [OF c assms(2)])
qed

lemma recalculateAllTotals_computed:
  assumes "recordComputed r" and "recordOK r"
  shows "recordComputed (recalculateAllTotals r)"
  using assms
  by (auto simp add: recordComputed_def recordOK_def recalculateAllTotals_def Let_def
        list_all_iff entryOK_def entryComputed_def countStatus_total_int)

lemma markAttendance_recordComputed:
  assumes "markAttendance db u req store = (Inr r, store')"
  shows "recordComputed r"
  using markAttendance_computed [OF assms]
  by (simp add: recordComputed_def list_all_iff)

text \<open>Every record that the operations can build is computed.\<close>

lemma reachable_computed: "reachable store \<Longrightarrow> list_all recordComputed store"
proof (induction rule: reachable.induct)
  case empty
  then show ?case by simp
next
  case (mark store db userId req r store')
  from markAttendance_Inr(1) [OF mark.hyps(2)] markAttendance_recordComputed [OF mark.hyps(2)]
    mark.IH
  show ?case by simp
next
  case (edit store db userId rid patch r store')
  from editAttendanceRecord_computed [OF edit.hyps(2) edit.IH] show ?case .
next
  case (session store i sid num newStatus modifiedBy t r)
  from session.IH session.hyps(2) have "recordComputed (store ! i)"
    by (simp add: list_all_length)
  from updateStudentSession_computed [OF session.hyps(3) this] show ?case
    by (intro list_all_update [OF session.IH])
next
  case (recalculate store i)
  from recalculate.IH recalculate.hyps(2) have c: "recordComputed (store ! i)"
    by (simp add: list_all_length)
  from reachable_OK [OF recalculate.hyps(1)] recalculate.hyps(2) have "recordOK (store ! i)"
    by (simp add: list_all_length)
  from recalculateAllTotals_computed [OF c this] show ?case
    by (intro list_all_update [OF recalculate.IH])
qed

lemma recordComputed_entry:
  assumes "recordComputed r" and "e \<in> set (attendance r)"
  shows "1 \<le> numSessions r" "numSessions r \<le> MAX_SESSIONS_PER_CLASS"
    "entryComputed (numSessions r) e"
    "attendancePercentage e
       = Num (fl (roundTo2 (of_nat (totalPresent e) / of_int (numSessions r) * 100)))"
proof -
  from assms show n: "1 \<le> numSessions r" "numSessions r \<le> MAX_SESSIONS_PER_CLASS"
    and c: "entryComputed (numSessions r) e"
    by (simp_all add: recordComputed_def list_all_iff)
  from entryComputed_exact [OF c n]
  show "attendancePercentage e
       = Num (fl (roundTo2 (of_nat (totalPresent e) / of_int (numSessions r) * 100)))" .
qed

lemma exRemarked_totals: "calculateStudentTotals exRemarked ''S1'' = Inr exRemarked"
  by code_simp

text \<open>
  Claim C5. The number of sessions of a record lies between 1 and
  \<open>MAX_SESSIONS_PER_CLASS\<close>: \<open>markAttendance\<close> refuses any other number and no
  operation changes it. For these numbers and \<open>0 \<le> present \<le> numSessions\<close> the computed
  percentage is \<open>present / numSessions * 100\<close> rounded to two decimals (the double that
  stands for this decimal, which is less than 0.005 from the exact value). So every
  entry of every record that the operations can build, and every entry of a record
  that \<open>markAttendance\<close> creates, holds the counts of its present and absent sessions
  and this percentage of them, and \<open>calculateStudentTotals\<close> on such a record stores
  them again. Sessions \<open>[{1, present}, {2, absent}]\<close> with two sessions give 1, 1 and
  50.00.
\<close>

theorem percentage_rounding:
  "(reachable store \<and> r \<in> set store \<and> e \<in> set (attendance r) \<longrightarrow>
        1 \<le> numSessions r \<and> numSessions r \<le> MAX_SESSIONS_PER_CLASS
      \<and> totalPresent e = countStatus PRESENT (sessions e)
      \<and> totalAbsent e = countStatus ABSENT (sessions e)
      \<and> int (totalPresent e + totalAbsent e) = numSessions r
      \<and> attendancePercentage e = jsPercentage (totalPresent e) (numSessions r)
      \<and> attendancePercentage e
          = Num (fl (roundTo2 (of_nat (totalPresent e) / of_int (numSessions r) * 100))))
   \<and> (1 \<le> n \<and> n \<le> MAX_SESSIONS_PER_CLASS \<and> int p \<le> n \<longrightarrow>
        jsPercentage p n = Num (fl (roundTo2 (of_nat p / of_int n * 100)))
      \<and> \<bar>roundTo2 (of_nat p / of_int n * 100) - of_nat p / of_int n * 100\<bar> < 1 / 200)
   \<and> (markAttendance db u req store0 = (Inr created, store') \<and> e0 \<in> set (attendance created) \<longrightarrow>
        1 \<le> numSessions created \<and> numSessions created \<le> MAX_SESSIONS_PER_CLASS
      \<and> totalPresent e0 = countStatus PRESENT (sessions e0)
      \<and> totalAbsent e0 = countStatus ABSENT (sessions e0)
      \<and> int (totalPresent e0 + totalAbsent e0) = numSessions created
      \<and> attendancePercentage e0 = jsPercentage (totalPresent e0) (numSessions created)
      \<and> attendancePercentage e0
          = Num (fl (roundTo2 (of_nat (totalPresent e0) / of_int (numSessions created) * 100))))
   \<and> (reachable store \<and> r \<in> set store \<and> calculateStudentTotals r sid = Inr r'
        \<and> entryOf sid r = Some e1 \<longrightarrow>
        (\<exists>e'. entryOf sid r' = Some e'
           \<and> totalPresent e' = countStatus PRESENT (sessions e1)
           \<and> totalAbsent e' = countStatus ABSENT (sessions e1)
           \<and> int (totalPresent e' + totalAbsent e') = numSessions r
           \<and> attendancePercentage e'
               = Num (fl (roundTo2 (of_nat (totalPresent e') / of_int (numSessions r) * 100)))))
   \<and> validateStudentAttendance exDb exSection 2
        \<lparr>in_studentId = ''S1'', in_sessions = exSessions\<rparr>
       = Inr \<lparr>studentId = ''S1'', sessions = exSessions, totalPresent = 1, totalAbsent = 1,
              attendancePercentage = Num 50\<rparr>"
proof (intro conjI impI)
  assume a: "reachable store \<and> r \<in> set store \<and> e \<in> set (attendance r)"
  with reachable_computed [of store] have c: "recordComputed r"
    by (simp add: list_all_iff)
  from a have e: "e \<in> set (attendance r)" by simp
  note k = recordComputed_entry [OF c e]
  from k(1) show "1 \<le> numSessions r" .
  from k(2) show "numSessions r \<le> MAX_SESSIONS_PER_CLASS" .
  from k(3) show "totalPresent e = countStatus PRESENT (sessions e)"
    "totalAbsent e = countStatus ABSENT (sessions e)"
    "int (totalPresent e + totalAbsent e) = numSessions r"
    "attendancePercentage e = jsPercentage (totalPresent e) (numSessions r)"
    unfolding entryComputed_def by blast+
  from k(4) show "attendancePercentage e
          = Num (fl (roundTo2 (of_nat (totalPresent e) / of_int (numSessions r) * 100)))" .
next
  assume a: "1 \<le> n \<and> n \<le> MAX_SESSIONS_PER_CLASS \<and> int p \<le> n"
  then have b: "\<not> 32 dvd n" "n \<le> 2 ^ 37" using small_no_tie by blast+
  with a no_tie_without_32 [of n p] have t: "\<not> roundingTie p n" by simp
  with a b(2)
  show "jsPercentage p n = Num (fl (roundTo2 (of_nat p / of_int n * 100)))"
    by (intro jsPercentage_exact) simp_all
  from a t show "\<bar>roundTo2 (of_nat p / of_int n * 100) - of_nat p / of_int n * 100\<bar> < 1 / 200"
    by (intro roundTo2_nearest) simp_all
next
  assume a: "markAttendance db u req store0 = (Inr created, store') \<and> e0 \<in> set (attendance created)"
  then have "markAttendance db u req store0 = (Inr created, store')" by simp
  then have c: "recordComputed created" by (rule markAttendance_recordComputed)
  from a have e: "e0 \<in> set (attendance created)" by simp
  note k = recordComputed_entry [OF c e]
  from k(1) show "1 \<le> numSessions created" .
  from k(2) show "numSessions created \<le> MAX_SESSIONS_PER_CLASS" .
  from k(3) show "totalPresent e0 = countStatus PRESENT (sessions e0)"
    "totalAbsent e0 = countStatus ABSENT (sessions e0)"
    "int (totalPresent e0 + totalAbsent e0) = numSessions created"
    "attendancePercentage e0 = jsPercentage (totalPresent e0) (numSessions created)"
    unfolding entryComputed_def by blast+
  from k(4) show "attendancePercentage e0
          = Num (fl (roundTo2 (of_nat (totalPresent e0) / of_int (numSessions created) * 100)))" .
next
  assume a: "reachable store \<and> r \<in> set store \<and> calculateStudentTotals r sid = Inr r'
        \<and> entryOf sid r = Some e1"
  with reachable_computed [of store] have c: "recordComputed r"
    by (simp add: list_all_iff)
  then have n: "1 \<le> numSessions r" "numSessions r \<le> MAX_SESSIONS_PER_CLASS" "numSessions r \<noteq> 0"
    by (simp_all add: recordComputed_def)
  from a have "calculateStudentTotals r sid = Inr r'" "entryOf sid r = Some e1" by simp_all
  from calculateStudentTotals_entry [OF this n(3)]
  obtain e' where e': "entryOf sid r' = Some e'"
    "totalPresent e' = countStatus PRESENT (sessions e1)"
    "totalAbsent e' = countStatus ABSENT (sessions e1)"
    "attendancePercentage e' = jsPercentage (totalPresent e') (numSessions r)"
    "int (totalPresent e' + totalAbsent e') = numSessions r"
    by blast
  from e'(5) have "int (totalPresent e') \<le> numSessions r" by simp
  with n small_no_tie [OF n(1,2)] no_tie_without_32 [of "numSessions r" "totalPresent e'"]
  have "jsPercentage (totalPresent e') (numSessions r)
          = Num (fl (roundTo2 (of_nat (totalPresent e') / of_int (numSessions r) * 100)))"
    by (intro jsPercentage_exact) simp_all
  with e' show "\<exists>e'. entryOf sid r' = Some e'
           \<and> totalPresent e' = countStatus PRESENT (sessions e1)
           \<and> totalAbsent e' = countStatus ABSENT (sessions e1)
           \<and> int (totalPresent e' + totalAbsent e') = numSessions r
           \<and> attendancePercentage e'
               = Num (fl (roundTo2 (of_nat (totalPresent e') / of_int (numSessions r) * 100)))"
    by simp
next
  show "validateStudentAttendance exDb exSection 2
        \<lparr>in_studentId = ''S1'', in_sessions = exSessions\<rparr>
       = Inr \<lparr>studentId = ''S1'', sessions = exSessions, totalPresent = 1, totalAbsent = 1,
              attendancePercentage = Num 50\<rparr>"
    using exEntry_validated by (simp add: exEntry_def)
qed

theorem percentage_rounding_witness:
  "reachable [exRemarked] \<and> exRemarked \<in> set [exRemarked]
   \<and> hd (attendance exRemarked) \<in> set (attendance exRemarked)
   \<and> attendancePercentage (hd (attendance exRemarked))
       = Num (fl (roundTo2 (of_nat (totalPresent (hd (attendance exRemarked)))
                              / of_int (numSessions exRemarked) * 100)))
   \<and> attendancePercentage (hd (attendance exRemarked)) = Num 100
   \<and> (1::int) \<le> 3 \<and> (3::int) \<le> MAX_SESSIONS_PER_CLASS \<and> int 1 \<le> 3
   \<and> jsPercentage 1 3 = Num (fl (roundTo2 (of_nat 1 / of_int 3 * 100)))
   \<and> roundTo2 (of_nat 1 / of_int 3 * 100) = 3333 / 100
   \<and> markAttendance exDb ''U1'' (exMark ''S1'' exSessions) []
       = (Inr (exRecord ''S1''), [exRecord ''S1''])
   \<and> exEntry \<in> set (attendance (exRecord ''S1''))
   \<and> attendancePercentage exEntry
       = Num (fl (roundTo2 (of_nat (totalPresent exEntry) / of_int (numSessions (exRecord ''S1''))
                              * 100)))
   \<and> calculateStudentTotals exRemarked ''S1'' = Inr exRemarked
   \<and> entryOf ''S1'' exRemarked = Some (hd (attendance exRemarked))
   \<and> (\<exists>e'. entryOf ''S1'' exRemarked = Some e'
         \<and> attendancePercentage e'
             = Num (fl (roundTo2 (of_nat (totalPresent e') / of_int (numSessions exRemarked) * 100))))"
proof -
  have "reachable [exRecord ''S1'']"
    by (rule reachable.mark [OF reachable.empty exMark_creates])
  then have r: "reachable [exRemarked]"
    by (rule reachable.edit [OF _ exRemark_edits])
  have s: "exRemarked \<in> set [exRemarked]" by simp
  have h: "hd (attendance exRemarked) \<in> set (attendance exRemarked)"
    by (simp add: exRemarked_def)
  have v: "attendancePercentage (hd (attendance exRemarked)) = Num 100"
    by (simp add: exRemarked_def)
  have m: "(3::int) \<le> MAX_SESSIONS_PER_CLASS" by (simp add: MAX_SESSIONS_PER_CLASS_def)
  have q: "roundTo2 (of_nat 1 / of_int 3 * 100) = 3333 / 100" by code_simp
  have x: "exEntry \<in> set (attendance (exRecord ''S1''))"
    by (simp add: exEntry_def exRecord_def)
  have f: "entryOf ''S1'' exRemarked = Some (hd (attendance exRemarked))"
    by (simp add: entryOf_def exRemarked_def)
  note T = percentage_rounding [where store = "[exRemarked]" and r = exRemarked
      and e = "hd (attendance exRemarked)" and n = 3 and p = 1 and db = exDb and u = "''U1''"
      and req = "exMark ''S1'' exSessions" and ?store0.0 = "[]" and created = "exRecord ''S1''"
      and store' = "[exRecord ''S1'']" and ?e0.0 = exEntry and sid = "''S1''"
      and r' = exRemarked and ?e1.0 = "hd (attendance exRemarked)"]
  from T r s h
  have c1: "attendancePercentage (hd (attendance exRemarked))
       = Num (fl (roundTo2 (of_nat (totalPresent (hd (attendance exRemarked)))
                              / of_int (numSessions exRemarked) * 100)))"
    by blast
  from T m have c2: "jsPercentage 1 3 = Num (fl (roundTo2 (of_nat 1 / of_int 3 * 100)))"
    by simp
  from T exMark_creates x
  have c3: "attendancePercentage exEntry
       = Num (fl (roundTo2 (of_nat (totalPresent exEntry) / of_int (numSessions (exRecord ''S1''))
                              * 100)))"
    by blast
  from T r s exRemarked_totals f
  have c4: "\<exists>e'. entryOf ''S1'' exRemarked = Some e'
         \<and> attendancePercentage e'
             = Num (fl (roundTo2 (of_nat (totalPresent e') / of_int (numSessions exRemarked) * 100)))"
    by blast
  from r s h c1 v m c2 q exMark_creates x c3 exRemarked_totals f c4 show ?thesis by simp
qed


end
